theory Spec2Isabelle
  imports Main
begin

section \<open>The matching service: data model\<close>

text \<open>
  The development embeds \<^verbatim>\<open>backend/matching-service/src/matchingService.ts\<close>.
  Every handler of that file is an \<^verbatim>\<open>async\<close> function that reads and writes
  two tables through the ORM client, emits events through the socket server and hands
  delayed messages to the message broker. Here a handler is a function from the state
  before the call to the state after it; the state holds the two tables, the counter of
  the auto-incremented key, the log of emitted events and the log of delayed messages.
  One handler runs at a time: interleavings of two handlers at their \<^verbatim>\<open>await\<close>
  points are outside this model.
\<close>

subsection \<open>Rows of the two tables\<close>

text \<open>
  A row of the table \<^verbatim>\<open>matchRecord\<close>. The field \<open>matchedUserId\<close> and the field
  \<open>questionId\<close> are nullable (the source reads \<^verbatim>\<open>matchedRecord.questionId ?? ...\<close>).
\<close>

record matchRecord =
  recordId :: nat
  userId :: string
  topic :: string
  difficulty :: string
  socketId :: string
  roomNumber :: string
  matched :: bool
  matchedUserId :: "string option"
  isPending :: bool
  isConfirmed :: bool
  isArchived :: bool
  questionId :: "int option"

text \<open>
  A row of the table \<^verbatim>\<open>sessionHistory\<close>, with the fields that
  \<^verbatim>\<open>handleMatchingConfirm\<close> writes. The room and the question of a session carry
  the prefix \<open>session\<close>, since a field name belongs to one record type.
\<close>

record sessionHistory =
  sessionRoomNumber :: string
  sessionQuestionId :: int
  isOngoing :: bool
  userOneId :: string
  userTwoId :: string

subsection \<open>Events sent to sockets and delayed messages\<close>

text \<open>
  The second argument of \<^verbatim>\<open>emit\<close> is either a plain string, an object with the
  one field \<^verbatim>\<open>message\<close>, or the object of the event \<^verbatim>\<open>matched\<close> with the fields
  \<^verbatim>\<open>matchedWith\<close>, \<^verbatim>\<open>roomNumber\<close> and \<^verbatim>\<open>questionId\<close>.
\<close>

datatype payload =
  Text string
  | MessageObj string
  | MatchedObj string string int

record notification =
  target :: string
  event :: string
  payload :: payload

text \<open>A delayed message of type \<^verbatim>\<open>confirm_timeout\<close>: the record id and the delay.\<close>

record delayedMessage =
  delayedRecordId :: nat
  delay :: nat

definition CONFIRM_DELAY_TIME :: nat where
  "CONFIRM_DELAY_TIME = 10000"

definition msgDuplicate :: string where
  "msgDuplicate = ''New connection detected for the same user. Please close the current page''"

definition msgNoQuestion :: string where
  "msgNoQuestion = ''No Question found for the selected topic''"

definition msgNotConfirmed :: string where
  "msgNotConfirmed = ''Match not confirmed. Please try again.''"

definition msgSuccess :: string where
  "msgSuccess = ''Match confirmed. Proceeding to collaboration service.''"

definition msgOtherAccepted :: string where
  "msgOtherAccepted = ''Other user confirmed match. Please confirm.''"

definition msgTimeout :: string where
  "msgTimeout = ''No match found. Please try again.''"

subsection \<open>The state\<close>

record state =
  matchRecordTable :: "matchRecord list"
  sessionHistoryTable :: "sessionHistory list"
  nextRecordId :: nat
  emitted :: "notification list"
  delayed :: "delayedMessage list"

definition initialState :: state where
  "initialState =
     \<lparr>matchRecordTable = [], sessionHistoryTable = [], nextRecordId = 1,
      emitted = [], delayed = []\<rparr>"

section \<open>The collaborators\<close>

text \<open>
  The table is a list of rows. \<^verbatim>\<open>findFirst\<close> is called without \<^verbatim>\<open>orderBy\<close>, so the
  source does not fix which of the rows that satisfy the filter it gets: that is the
  store's choice, and a store may move a row when it updates it. A \<open>chooser\<close> stands for
  the choice of the store during one call of a handler: given the list of the rows that
  satisfy the filter, it names a position in that list. \<open>findFirst\<close> returns the row at
  that position, taken modulo the length, so that every chooser names a row. A handler
  takes the chooser as its first argument, and what is proved of a handler is proved for
  every chooser. \<open>firstRow\<close> is the chooser of a store that returns the rows in the order
  of the list, where a row keeps its place when it is updated.
\<close>

type_synonym chooser = "matchRecord list \<Rightarrow> nat"

definition pickRow :: "chooser \<Rightarrow> matchRecord list \<Rightarrow> matchRecord option" where
  "pickRow ch ms = (if ms = [] then None else Some (ms ! (ch ms mod length ms)))"

definition findFirst :: "chooser \<Rightarrow> (matchRecord \<Rightarrow> bool) \<Rightarrow> state \<Rightarrow> matchRecord option" where
  "findFirst ch p s = pickRow ch (filter p (matchRecordTable s))"

definition firstRow :: chooser where
  "firstRow ms = 0"

text \<open>
  \<^verbatim>\<open>findUnique({ where: { recordId } })\<close> reads by the key of the table, of which there
  is at most one row.
\<close>

definition findUnique :: "nat \<Rightarrow> state \<Rightarrow> matchRecord option" where
  "findUnique rid s = find (\<lambda>r. recordId r = rid) (matchRecordTable s)"

text \<open>
  \<^verbatim>\<open>update({ where: { recordId }, data })\<close> rewrites the row with that key. Every
  call of the source passes the key of a row it has just read, so the row exists.
\<close>

definition update :: "nat \<Rightarrow> (matchRecord \<Rightarrow> matchRecord) \<Rightarrow> state \<Rightarrow> state" where
  "update rid f s =
     s\<lparr>matchRecordTable := map (\<lambda>r. if recordId r = rid then f r else r) (matchRecordTable s)\<rparr>"

definition updateMany :: "(matchRecord \<Rightarrow> bool) \<Rightarrow> (matchRecord \<Rightarrow> matchRecord) \<Rightarrow> state \<Rightarrow> state" where
  "updateMany p f s =
     s\<lparr>matchRecordTable := map (\<lambda>r. if p r then f r else r) (matchRecordTable s)\<rparr>"

definition delete :: "nat \<Rightarrow> state \<Rightarrow> state" where
  "delete rid s = s\<lparr>matchRecordTable := filter (\<lambda>r. recordId r \<noteq> rid) (matchRecordTable s)\<rparr>"

text \<open>
  Modelled from the spec: the schema of the table is not among the sources. The spec's
  data model gives the key as unique and monotonically assigned, \<open>questionId\<close> as
  nullable until pairing and \<open>matchedUserId\<close> as set when \<open>matched\<close> is true; a row
  created without \<open>isPending\<close>, \<open>isConfirmed\<close> or \<open>isArchived\<close> has them false.
\<close>

definition newRecord :: "string \<Rightarrow> string \<Rightarrow> string \<Rightarrow> string \<Rightarrow> bool \<Rightarrow> string \<Rightarrow> matchRecord" where
  "newRecord uid tpc diff sock m room =
     \<lparr>recordId = 0, userId = uid, topic = tpc, difficulty = diff, socketId = sock,
      roomNumber = room, matched = m, matchedUserId = None, isPending = False,
      isConfirmed = False, isArchived = False, questionId = None\<rparr>"

definition create :: "matchRecord \<Rightarrow> state \<Rightarrow> state" where
  "create d s =
     s\<lparr>matchRecordTable := matchRecordTable s @ [d\<lparr>recordId := nextRecordId s\<rparr>],
       nextRecordId := Suc (nextRecordId s)\<rparr>"

definition createSession :: "sessionHistory \<Rightarrow> state \<Rightarrow> state" where
  "createSession h s = s\<lparr>sessionHistoryTable := sessionHistoryTable s @ [h]\<rparr>"

text \<open>\<^verbatim>\<open>io.to(handle).emit(name, payload)\<close>.\<close>

definition emit :: "string \<Rightarrow> string \<Rightarrow> payload \<Rightarrow> state \<Rightarrow> state" where
  "emit h e p s = s\<lparr>emitted := emitted s @ [\<lparr>target = h, event = e, payload = p\<rparr>]\<rparr>"

definition sendConfirmDelayedTimeoutMessage :: "nat \<Rightarrow> state \<Rightarrow> state" where
  "sendConfirmDelayedTimeoutMessage rid s =
     s\<lparr>delayed := delayed s @ [\<lparr>delayedRecordId = rid, delay = CONFIRM_DELAY_TIME\<rparr>]\<rparr>"

text \<open>The statements of a block, run in the order they are written.\<close>

definition inOrder :: "(state \<Rightarrow> state) list \<Rightarrow> state \<Rightarrow> state" where
  "inOrder fs s = fold (\<lambda>f t. f t) fs s"

section \<open>The handlers\<close>

subsection \<open>Request intake\<close>

definition previousUserIds :: "string \<Rightarrow> state \<Rightarrow> string list" where
  "previousUserIds uid s =
     map (\<lambda>m. if userOneId m = uid then userTwoId m else userOneId m)
       (filter (\<lambda>m. userOneId m = uid \<or> userTwoId m = uid) (sessionHistoryTable s))"

definition excludedUserIds :: "string \<Rightarrow> state \<Rightarrow> string list" where
  "excludedUserIds uid s = uid # previousUserIds uid s"

text \<open>The four attempts of \<^verbatim>\<open>handleUserRequest\<close>, each made only when the one before
  returned \<^verbatim>\<open>null\<close>.\<close>

definition existingMatch ::
  "chooser \<Rightarrow> string \<Rightarrow> string \<Rightarrow> string \<Rightarrow> state \<Rightarrow> matchRecord option" where
  "existingMatch ch uid tpc diff s =
     (case findFirst ch (\<lambda>r. topic r = tpc \<and> difficulty r = diff \<and> \<not> matched r \<and> \<not> isArchived r
                          \<and> userId r \<notin> set (excludedUserIds uid s)) s of
        Some m \<Rightarrow> Some m
      | None \<Rightarrow>
     (case findFirst ch (\<lambda>r. topic r = tpc \<and> \<not> matched r \<and> \<not> isArchived r
                          \<and> userId r \<notin> set (excludedUserIds uid s)) s of
        Some m \<Rightarrow> Some m
      | None \<Rightarrow>
     (case findFirst ch (\<lambda>r. topic r = tpc \<and> difficulty r = diff \<and> \<not> matched r \<and> \<not> isArchived r
                          \<and> userId r \<noteq> uid) s of
        Some m \<Rightarrow> Some m
      | None \<Rightarrow>
        findFirst ch (\<lambda>r. topic r = tpc \<and> \<not> matched r \<and> \<not> isArchived r \<and> userId r \<noteq> uid) s)))"

text \<open>
  \<open>handleUserRequest ch room question uid tpc diff sock\<close>: the last four arguments are
  the fields of the request and \<open>ch\<close> is the chooser of the store. \<open>room\<close> is the value
  that \<^verbatim>\<open>uuidv4()\<close> returns in the branch that runs, and \<open>question\<close> is the answer of
  \<^verbatim>\<open>fetchRandomQuestion(difficulty, topic)\<close>: \<open>None\<close> when it is falsy, the question's
  id otherwise. Both are collaborators outside this file, so the handler takes their
  answers as arguments.
\<close>

definition handleUserRequest ::
  "chooser \<Rightarrow> string \<Rightarrow> int option \<Rightarrow> string \<Rightarrow> string \<Rightarrow> string \<Rightarrow> string \<Rightarrow> state \<Rightarrow> state" where
  "handleUserRequest ch room question uid tpc diff sock s =
     (case findFirst ch (\<lambda>r. userId r = uid \<and> \<not> isPending r \<and> \<not> isArchived r) s of
        Some user \<Rightarrow>
          (if socketId user \<noteq> sock
           then inOrder
                  [emit (socketId user) ''duplicate socket'' (Text msgDuplicate),
                   update (recordId user) (\<lambda>r. r\<lparr>socketId := sock\<rparr>)] s
           else s)
      | None \<Rightarrow>
          (case existingMatch ch uid tpc diff s of
             Some em \<Rightarrow>
               (case question of
                  None \<Rightarrow>
                    inOrder
                      [emit sock ''question_error'' (MessageObj msgNoQuestion),
                       emit (socketId em) ''question_error'' (MessageObj msgNoQuestion),
                       delete (recordId em)] s
                | Some q \<Rightarrow>
                    inOrder
                      [update (recordId em)
                         (\<lambda>r. r\<lparr>matched := True, matchedUserId := Some uid, isPending := True\<rparr>),
                       create ((newRecord uid tpc diff sock True room)
                                 \<lparr>matchedUserId := Some (userId em), isPending := True,
                                  questionId := Some q\<rparr>),
                       emit sock ''matched'' (MatchedObj (userId em) room q),
                       emit (socketId em) ''matched'' (MatchedObj uid room q),
                       sendConfirmDelayedTimeoutMessage (nextRecordId s),
                       sendConfirmDelayedTimeoutMessage (recordId em)] s)
           | None \<Rightarrow> create (newRecord uid tpc diff sock False room) s))"

subsection \<open>Confirmation and decline\<close>

text \<open>
  Both handlers read the two rows first and work on what they read: \<open>userRecord\<close> and
  \<open>matchedRecord\<close> below are the rows as they were before any update of the call.
\<close>

definition findUserRecord :: "chooser \<Rightarrow> string \<Rightarrow> state \<Rightarrow> matchRecord option" where
  "findUserRecord ch uid s =
     findFirst ch (\<lambda>r. userId r = uid \<and> isPending r \<and> \<not> isArchived r) s"

definition findMatchedRecord :: "chooser \<Rightarrow> string \<Rightarrow> state \<Rightarrow> matchRecord option" where
  "findMatchedRecord ch uid s =
     findFirst ch (\<lambda>r. matchedUserId r = Some uid \<and> isPending r \<and> \<not> isArchived r) s"

definition archive :: "matchRecord \<Rightarrow> matchRecord" where
  "archive r = r\<lparr>isArchived := True\<rparr>"

definition nullish :: "int option \<Rightarrow> int option \<Rightarrow> int" where
  "nullish a b = (case a of Some x \<Rightarrow> x | None \<Rightarrow> (case b of Some y \<Rightarrow> y | None \<Rightarrow> 0))"

definition handleMatchingConfirm :: "chooser \<Rightarrow> string \<Rightarrow> state \<Rightarrow> state" where
  "handleMatchingConfirm ch uid s =
     (case (findMatchedRecord ch uid s, findUserRecord ch uid s) of
        (Some matchedRecord, Some userRecord) \<Rightarrow>
          (if isConfirmed userRecord then s
           else if isConfirmed matchedRecord
           then inOrder
                  [update (recordId userRecord) (\<lambda>r. r\<lparr>isConfirmed := True\<rparr>),
                   update (recordId matchedRecord) archive,
                   update (recordId userRecord) archive,
                   createSession
                     \<lparr>sessionRoomNumber = roomNumber matchedRecord,
                      sessionQuestionId = nullish (questionId matchedRecord) (questionId userRecord),
                      isOngoing = True,
                      userOneId = userId userRecord,
                      userTwoId = userId matchedRecord\<rparr>,
                   emit (socketId userRecord) ''matching_success'' (Text msgSuccess),
                   emit (socketId matchedRecord) ''matching_success'' (Text msgSuccess)] s
           else inOrder
                  [update (recordId userRecord) (\<lambda>r. r\<lparr>isConfirmed := True\<rparr>),
                   emit (socketId matchedRecord) ''other_accepted'' (Text msgOtherAccepted)] s)
      | (m, u) \<Rightarrow>
          inOrder
            ((case m of
                Some matchedRecord \<Rightarrow>
                  [update (recordId matchedRecord) archive,
                   emit (socketId matchedRecord) ''other_declined'' (Text msgNotConfirmed)]
              | None \<Rightarrow> []) @
             (case u of
                Some userRecord \<Rightarrow>
                  [update (recordId userRecord) archive,
                   emit (socketId userRecord) ''other_declined'' (Text msgNotConfirmed)]
              | None \<Rightarrow> [])) s)"

definition handleMatchingDecline :: "chooser \<Rightarrow> string \<Rightarrow> state \<Rightarrow> state" where
  "handleMatchingDecline ch uid s =
     (case (findMatchedRecord ch uid s, findUserRecord ch uid s) of
        (Some matchedRecord, Some userRecord) \<Rightarrow>
          inOrder
            [update (recordId userRecord) archive,
             emit (socketId matchedRecord) ''other_declined'' (Text msgNotConfirmed),
             update (recordId matchedRecord) archive,
             emit (socketId userRecord) ''matching_fail'' (Text msgNotConfirmed),
             emit (socketId matchedRecord) ''matching_fail'' (Text msgNotConfirmed)] s
      | (m, u) \<Rightarrow>
          inOrder
            ((case m of
                Some matchedRecord \<Rightarrow>
                  [update (recordId matchedRecord) archive,
                   emit (socketId matchedRecord) ''other_declined'' (Text msgNotConfirmed),
                   emit (socketId matchedRecord) ''matching_fail'' (Text msgNotConfirmed)]
              | None \<Rightarrow> []) @
             (case u of
                Some userRecord \<Rightarrow>
                  [update (recordId userRecord) archive,
                   emit (socketId userRecord) ''other_declined'' (Text msgNotConfirmed),
                   emit (socketId userRecord) ''matching_fail'' (Text msgNotConfirmed)]
              | None \<Rightarrow> [])) s)"

subsection \<open>Expiry and disconnection\<close>

definition handleTimeout :: "chooser \<Rightarrow> string \<Rightarrow> string \<Rightarrow> state \<Rightarrow> state" where
  "handleTimeout ch uid sock s =
     (case findFirst ch (\<lambda>r. userId r = uid \<and> \<not> isPending r \<and> \<not> isArchived r \<and> socketId r = sock) s of
        Some result \<Rightarrow>
          inOrder
            ((if \<not> matched result then [emit sock ''timeout'' (Text msgTimeout)] else []) @
             [update (recordId result) archive]) s
      | None \<Rightarrow> s)"

text \<open>
  The argument is \<^verbatim>\<open>recordIdInt\<close>, the number that \<^verbatim>\<open>Number(recordId)\<close> reads from the
  message; the messages of this type are built from \<^verbatim>\<open>recordId.toString()\<close>.
\<close>

definition handleConfirmTimeout :: "nat \<Rightarrow> state \<Rightarrow> state" where
  "handleConfirmTimeout rid s =
     (case findUnique rid s of
        Some result \<Rightarrow>
          (if \<not> isArchived result
           then inOrder
                  [emit (socketId result) ''matching_fail'' (Text msgNotConfirmed),
                   update rid archive] s
           else s)
      | None \<Rightarrow> s)"

definition handleDisconnected :: "string \<Rightarrow> state \<Rightarrow> state" where
  "handleDisconnected sock s = updateMany (\<lambda>r. socketId r = sock) archive s"

subsection \<open>Runs of the service\<close>

datatype request =
  UserRequest string "int option" string string string string
  | MatchingConfirm string
  | MatchingDecline string
  | Timeout string string
  | ConfirmTimeout nat
  | Disconnected string

text \<open>
  A step of a run is a request together with the chooser of the store while the request
  is handled. \<open>inPlace\<close> gives every request of a list the chooser \<open>firstRow\<close>.
\<close>

fun handle :: "chooser \<Rightarrow> request \<Rightarrow> state \<Rightarrow> state" where
  "handle ch (UserRequest room question uid tpc diff sock) s =
     handleUserRequest ch room question uid tpc diff sock s"
| "handle ch (MatchingConfirm uid) s = handleMatchingConfirm ch uid s"
| "handle ch (MatchingDecline uid) s = handleMatchingDecline ch uid s"
| "handle ch (Timeout uid sock) s = handleTimeout ch uid sock s"
| "handle ch (ConfirmTimeout rid) s = handleConfirmTimeout rid s"
| "handle ch (Disconnected sock) s = handleDisconnected sock s"

definition run :: "(chooser \<times> request) list \<Rightarrow> state \<Rightarrow> state" where
  "run steps s = fold (\<lambda>step t. handle (fst step) (snd step) t) steps s"

definition inPlace :: "request list \<Rightarrow> (chooser \<times> request) list" where
  "inPlace reqs = map (Pair firstRow) reqs"

section \<open>Example runs\<close>

text \<open>
  States reached from the empty tables, used to instantiate the theorems below. In the
  first, alice has asked for a match and waits; in the second, bob has asked next and the
  two are paired.
\<close>

definition aliceWaiting :: matchRecord where
  "aliceWaiting =
     \<lparr>recordId = 1, userId = ''alice'', topic = ''arrays'', difficulty = ''easy'',
      socketId = ''sock-a'', roomNumber = ''room-1'', matched = False, matchedUserId = None,
      isPending = False, isConfirmed = False, isArchived = False, questionId = None\<rparr>"

definition waitingExample :: state where
  "waitingExample =
     run (inPlace [UserRequest ''room-1'' (Some 7) ''alice'' ''arrays'' ''easy'' ''sock-a'']) initialState"

definition alicePending :: matchRecord where
  "alicePending = aliceWaiting\<lparr>matched := True, matchedUserId := Some ''bob'', isPending := True\<rparr>"

definition bobPending :: matchRecord where
  "bobPending =
     \<lparr>recordId = 2, userId = ''bob'', topic = ''arrays'', difficulty = ''easy'',
      socketId = ''sock-b'', roomNumber = ''room-2'', matched = True, matchedUserId = Some ''alice'',
      isPending = True, isConfirmed = False, isArchived = False, questionId = Some 7\<rparr>"

definition pairedExample :: state where
  "pairedExample =
     run (inPlace [UserRequest ''room-1'' (Some 7) ''alice'' ''arrays'' ''easy'' ''sock-a'',
          UserRequest ''room-2'' (Some 7) ''bob'' ''arrays'' ''easy'' ''sock-b'']) initialState"

section \<open>Candidate selection as the specification words it\<close>

text \<open>
  These three definitions follow the specification, not the source: the exclusion set is
  the requester and every counterpart of the requester in the session history, taken from
  the rows where the requester is user one and from those where the requester is user two;
  the four tiers are four lists of open rows (not archived, \<open>matched = false\<close>); the
  candidate comes from the first tier that is not empty, and is the row of that tier that
  the store returns (the specification leaves the choice within a tier to the
  implementation).
\<close>

definition spec_excludedUserIds :: "string \<Rightarrow> state \<Rightarrow> string set" where
  "spec_excludedUserIds uid s =
     {uid}
     \<union> set (map userTwoId (filter (\<lambda>h. userOneId h = uid) (sessionHistoryTable s)))
     \<union> set (map userOneId (filter (\<lambda>h. userTwoId h = uid) (sessionHistoryTable s)))"

definition spec_tiers :: "string \<Rightarrow> string \<Rightarrow> string \<Rightarrow> state \<Rightarrow> matchRecord list list" where
  "spec_tiers uid tpc diff s =
     (let candidates = filter (\<lambda>r. \<not> isArchived r \<and> \<not> matched r) (matchRecordTable s) in
      [filter (\<lambda>r. topic r = tpc \<and> difficulty r = diff \<and> userId r \<notin> spec_excludedUserIds uid s) candidates,
       filter (\<lambda>r. topic r = tpc \<and> userId r \<notin> spec_excludedUserIds uid s) candidates,
       filter (\<lambda>r. topic r = tpc \<and> difficulty r = diff \<and> userId r \<noteq> uid) candidates,
       filter (\<lambda>r. topic r = tpc \<and> userId r \<noteq> uid) candidates])"

fun firstOfTiers :: "chooser \<Rightarrow> matchRecord list list \<Rightarrow> matchRecord option" where
  "firstOfTiers ch [] = None"
| "firstOfTiers ch (t # ts) = (if t = [] then firstOfTiers ch ts else pickRow ch t)"

definition spec_selectCandidate ::
  "chooser \<Rightarrow> string \<Rightarrow> string \<Rightarrow> string \<Rightarrow> state \<Rightarrow> matchRecord option" where
  "spec_selectCandidate ch uid tpc diff s = firstOfTiers ch (spec_tiers uid tpc diff s)"

text \<open>
  A run in which alice and bob have been paired, have both confirmed, and alice waits
  again: her row is the only open one, and bob has a session with her.
\<close>

definition aliceAgain :: matchRecord where
  "aliceAgain =
     \<lparr>recordId = 3, userId = ''alice'', topic = ''arrays'', difficulty = ''easy'',
      socketId = ''sock-a'', roomNumber = ''room-3'', matched = False, matchedUserId = None,
      isPending = False, isConfirmed = False, isArchived = False, questionId = None\<rparr>"

definition rematchExample :: state where
  "rematchExample =
     run (inPlace [MatchingConfirm ''alice'', MatchingConfirm ''bob'',
          UserRequest ''room-3'' (Some 8) ''alice'' ''arrays'' ''easy'' ''sock-a'']) pairedExample"

section \<open>Outstanding rows\<close>

text \<open>
  The rows that the first lookup of \<open>handleUserRequest\<close> ranges over: neither pending
  nor archived. \<open>oneOutstanding\<close> says that no two of them belong to one user.
\<close>

definition outstanding :: "state \<Rightarrow> matchRecord list" where
  "outstanding s = filter (\<lambda>r. \<not> isPending r \<and> \<not> isArchived r) (matchRecordTable s)"

definition oneOutstanding :: "state \<Rightarrow> bool" where
  "oneOutstanding s = distinct (map userId (outstanding s))"

text \<open>The run in which bob, paired with alice and not yet confirmed, asks again.\<close>

definition bobAgain :: matchRecord where
  "bobAgain =
     \<lparr>recordId = 3, userId = ''bob'', topic = ''arrays'', difficulty = ''easy'',
      socketId = ''sock-b'', roomNumber = ''room-3'', matched = False, matchedUserId = None,
      isPending = False, isConfirmed = False, isArchived = False, questionId = None\<rparr>"

definition secondRequestExample :: state where
  "secondRequestExample =
     run (inPlace [UserRequest ''room-1'' (Some 7) ''alice'' ''arrays'' ''easy'' ''sock-a'',
          UserRequest ''room-2'' (Some 7) ''bob'' ''arrays'' ''easy'' ''sock-b'',
          UserRequest ''room-3'' (Some 7) ''bob'' ''arrays'' ''easy'' ''sock-b'']) initialState"

section \<open>A pair awaiting confirmation\<close>

text \<open>
  \<open>holdPair s a b ra rb\<close>: in the state \<open>s\<close> the users \<open>a\<close> and \<open>b\<close> hold the rows \<open>ra\<close>
  and \<open>rb\<close> that refer to each other. \<open>ra\<close> is the one pending, non-archived row of \<open>a\<close>
  and the one such row that names \<open>b\<close> as its counterpart; \<open>rb\<close> is the one pending,
  non-archived row of \<open>b\<close> and the one such row that names \<open>a\<close>. The keys of the table are
  distinct.
\<close>

definition holdPair :: "state \<Rightarrow> string \<Rightarrow> string \<Rightarrow> matchRecord \<Rightarrow> matchRecord \<Rightarrow> bool" where
  "holdPair s a b ra rb \<longleftrightarrow>
     a \<noteq> b \<and> distinct (map recordId (matchRecordTable s))
     \<and> filter (\<lambda>r. userId r = a \<and> isPending r \<and> \<not> isArchived r) (matchRecordTable s) = [ra]
     \<and> filter (\<lambda>r. matchedUserId r = Some b \<and> isPending r \<and> \<not> isArchived r) (matchRecordTable s) = [ra]
     \<and> filter (\<lambda>r. userId r = b \<and> isPending r \<and> \<not> isArchived r) (matchRecordTable s) = [rb]
     \<and> filter (\<lambda>r. matchedUserId r = Some a \<and> isPending r \<and> \<not> isArchived r) (matchRecordTable s) = [rb]"

text \<open>
  \<open>bothConfirmed s ra rb a b s'\<close>: what the state \<open>s'\<close> shows when the pair of \<open>s\<close> has been
  confirmed from both sides. The rows with the keys of \<open>ra\<close> and \<open>rb\<close> are confirmed and
  archived and no other row differs from \<open>s\<close>; exactly one session has been appended, for
  the two users; the events sent since \<open>s\<close> contain exactly two \<open>matching_success\<close>, one to
  the handle of each row; nothing has been scheduled and no key has been assigned.
\<close>

definition bothConfirmed ::
  "state \<Rightarrow> matchRecord \<Rightarrow> matchRecord \<Rightarrow> string \<Rightarrow> string \<Rightarrow> state \<Rightarrow> bool" where
  "bothConfirmed s ra rb a b s' \<longleftrightarrow>
     matchRecordTable s' =
       map (\<lambda>r. if recordId r = recordId ra \<or> recordId r = recordId rb
                 then r\<lparr>isConfirmed := True, isArchived := True\<rparr> else r) (matchRecordTable s)
     \<and> sessionHistoryTable s' \<noteq> []
     \<and> butlast (sessionHistoryTable s') = sessionHistoryTable s
     \<and> isOngoing (last (sessionHistoryTable s'))
     \<and> ((userOneId (last (sessionHistoryTable s')) = a \<and> userTwoId (last (sessionHistoryTable s')) = b)
        \<or> (userOneId (last (sessionHistoryTable s')) = b \<and> userTwoId (last (sessionHistoryTable s')) = a))
     \<and> take (length (emitted s)) (emitted s') = emitted s
     \<and> map target (filter (\<lambda>n. event n = ''matching_success'') (drop (length (emitted s)) (emitted s')))
         \<in> {[socketId ra, socketId rb], [socketId rb, socketId ra]}
     \<and> delayed s' = delayed s
     \<and> nextRecordId s' = nextRecordId s"

text \<open>
  A run that ends with alice and bob holding a pair in which both rows are confirmed and
  neither is archived. Carol waits; bob is paired with her; bob asks again and waits on a
  second row; alice is paired with that row and confirms; bob's first row expires; bob
  confirms, which is taken against carol's row; carol's row expires.
\<close>

definition carolExpired :: matchRecord where
  "carolExpired =
     \<lparr>recordId = 1, userId = ''carol'', topic = ''arrays'', difficulty = ''easy'',
      socketId = ''sock-c'', roomNumber = ''room-1'', matched = True, matchedUserId = Some ''bob'',
      isPending = True, isConfirmed = False, isArchived = True, questionId = None\<rparr>"

definition bobExpired :: matchRecord where
  "bobExpired =
     \<lparr>recordId = 2, userId = ''bob'', topic = ''arrays'', difficulty = ''easy'',
      socketId = ''sock-b'', roomNumber = ''room-2'', matched = True, matchedUserId = Some ''carol'',
      isPending = True, isConfirmed = False, isArchived = True, questionId = Some 7\<rparr>"

definition bobStale :: matchRecord where
  "bobStale =
     \<lparr>recordId = 3, userId = ''bob'', topic = ''arrays'', difficulty = ''easy'',
      socketId = ''sock-b'', roomNumber = ''room-3'', matched = True, matchedUserId = Some ''alice'',
      isPending = True, isConfirmed = True, isArchived = False, questionId = None\<rparr>"

definition aliceStale :: matchRecord where
  "aliceStale =
     \<lparr>recordId = 4, userId = ''alice'', topic = ''arrays'', difficulty = ''easy'',
      socketId = ''sock-a'', roomNumber = ''room-4'', matched = True, matchedUserId = Some ''bob'',
      isPending = True, isConfirmed = True, isArchived = False, questionId = Some 7\<rparr>"

definition staleConfirmExample :: state where
  "staleConfirmExample =
     run (inPlace [UserRequest ''room-1'' (Some 7) ''carol'' ''arrays'' ''easy'' ''sock-c'',
          UserRequest ''room-2'' (Some 7) ''bob'' ''arrays'' ''easy'' ''sock-b'',
          UserRequest ''room-3'' (Some 7) ''bob'' ''arrays'' ''easy'' ''sock-b'',
          UserRequest ''room-4'' (Some 7) ''alice'' ''arrays'' ''easy'' ''sock-a'',
          MatchingConfirm ''alice'', ConfirmTimeout 2, MatchingConfirm ''bob'',
          ConfirmTimeout 1]) initialState"

section \<open>A user with two pending rows\<close>

text \<open>
  The state after the first four requests of the run above: carol and bob are paired on
  the rows 1 and 2, bob and alice on the rows 3 and 4, nobody has confirmed, and bob holds
  two pending rows. \<open>unconfirmedFirst\<close> is the chooser of a store that returns a row that
  is not confirmed before the confirmed ones, as a store does that moves a row behind the
  others when a confirm writes it.
\<close>

definition carolPaired :: matchRecord where
  "carolPaired = carolExpired\<lparr>isArchived := False\<rparr>"

definition bobPaired :: matchRecord where
  "bobPaired = bobExpired\<lparr>isArchived := False\<rparr>"

definition bobSecond :: matchRecord where
  "bobSecond = bobStale\<lparr>isConfirmed := False\<rparr>"

definition aliceSecond :: matchRecord where
  "aliceSecond = aliceStale\<lparr>isConfirmed := False\<rparr>"

definition twoRowsExample :: state where
  "twoRowsExample =
     run (inPlace
          [UserRequest ''room-1'' (Some 7) ''carol'' ''arrays'' ''easy'' ''sock-c'',
           UserRequest ''room-2'' (Some 7) ''bob'' ''arrays'' ''easy'' ''sock-b'',
           UserRequest ''room-3'' (Some 7) ''bob'' ''arrays'' ''easy'' ''sock-b'',
           UserRequest ''room-4'' (Some 7) ''alice'' ''arrays'' ''easy'' ''sock-a'']) initialState"

definition unconfirmedFirst :: chooser where
  "unconfirmedFirst ms = length (takeWhile isConfirmed ms)"

section \<open>Keys and archived rows\<close>

text \<open>
  The key of the table is unique and assigned from a counter: \<open>keysOk\<close> says that the keys
  of the rows are distinct and below the counter. \<open>liveRows\<close> are the rows that are not
  archived. \<open>forget r\<close> takes the row \<open>r\<close> out of the table; it is used to say that
  a handler does the same with and without an archived row.
\<close>

definition keysOk :: "state \<Rightarrow> bool" where
  "keysOk s \<longleftrightarrow>
     distinct (map recordId (matchRecordTable s))
     \<and> (\<forall>r \<in> set (matchRecordTable s). recordId r < nextRecordId s)"

definition liveRows :: "state \<Rightarrow> matchRecord list" where
  "liveRows s = filter (\<lambda>r. \<not> isArchived r) (matchRecordTable s)"

definition forget :: "matchRecord \<Rightarrow> state \<Rightarrow> state" where
  "forget r s = s\<lparr>matchRecordTable := removeAll r (matchRecordTable s)\<rparr>"

text \<open>Two states that a handler cannot tell apart: they differ in archived rows only.\<close>

definition sameLive :: "state \<Rightarrow> state \<Rightarrow> bool" where
  "sameLive s t \<longleftrightarrow>
     liveRows s = liveRows t \<and> sessionHistoryTable s = sessionHistoryTable t
     \<and> nextRecordId s = nextRecordId t \<and> emitted s = emitted t \<and> delayed s = delayed t"

section \<open>Reading the state after a statement\<close>

lemma inOrder_Nil [simp]: "inOrder [] s = s"
  by (simp add: inOrder_def)

lemma inOrder_Cons [simp]: "inOrder (f # fs) s = inOrder fs (f s)"
  by (simp add: inOrder_def)

lemma inOrder_append [simp]: "inOrder (fs @ gs) s = inOrder gs (inOrder fs s)"
  by (simp add: inOrder_def)

lemma emit_fields [simp]:
  "matchRecordTable (emit h e p s) = matchRecordTable s"
  "sessionHistoryTable (emit h e p s) = sessionHistoryTable s"
  "nextRecordId (emit h e p s) = nextRecordId s"
  "delayed (emit h e p s) = delayed s"
  "emitted (emit h e p s) = emitted s @ [\<lparr>target = h, event = e, payload = p\<rparr>]"
  by (simp_all add: emit_def)

lemma update_fields [simp]:
  "matchRecordTable (update rid f s) = map (\<lambda>r. if recordId r = rid then f r else r) (matchRecordTable s)"
  "sessionHistoryTable (update rid f s) = sessionHistoryTable s"
  "nextRecordId (update rid f s) = nextRecordId s"
  "delayed (update rid f s) = delayed s"
  "emitted (update rid f s) = emitted s"
  by (simp_all add: update_def)

lemma updateMany_fields [simp]:
  "matchRecordTable (updateMany p f s) = map (\<lambda>r. if p r then f r else r) (matchRecordTable s)"
  "sessionHistoryTable (updateMany p f s) = sessionHistoryTable s"
  "nextRecordId (updateMany p f s) = nextRecordId s"
  "delayed (updateMany p f s) = delayed s"
  "emitted (updateMany p f s) = emitted s"
  by (simp_all add: updateMany_def)

lemma delete_fields [simp]:
  "matchRecordTable (delete rid s) = filter (\<lambda>r. recordId r \<noteq> rid) (matchRecordTable s)"
  "sessionHistoryTable (delete rid s) = sessionHistoryTable s"
  "nextRecordId (delete rid s) = nextRecordId s"
  "delayed (delete rid s) = delayed s"
  "emitted (delete rid s) = emitted s"
  by (simp_all add: delete_def)

lemma create_fields [simp]:
  "matchRecordTable (create d s) = matchRecordTable s @ [d\<lparr>recordId := nextRecordId s\<rparr>]"
  "sessionHistoryTable (create d s) = sessionHistoryTable s"
  "nextRecordId (create d s) = Suc (nextRecordId s)"
  "delayed (create d s) = delayed s"
  "emitted (create d s) = emitted s"
  by (simp_all add: create_def)

lemma createSession_fields [simp]:
  "matchRecordTable (createSession h s) = matchRecordTable s"
  "sessionHistoryTable (createSession h s) = sessionHistoryTable s @ [h]"
  "nextRecordId (createSession h s) = nextRecordId s"
  "delayed (createSession h s) = delayed s"
  "emitted (createSession h s) = emitted s"
  by (simp_all add: createSession_def)

lemma sendConfirm_fields [simp]:
  "matchRecordTable (sendConfirmDelayedTimeoutMessage rid s) = matchRecordTable s"
  "sessionHistoryTable (sendConfirmDelayedTimeoutMessage rid s) = sessionHistoryTable s"
  "nextRecordId (sendConfirmDelayedTimeoutMessage rid s) = nextRecordId s"
  "delayed (sendConfirmDelayedTimeoutMessage rid s) =
     delayed s @ [\<lparr>delayedRecordId = rid, delay = CONFIRM_DELAY_TIME\<rparr>]"
  "emitted (sendConfirmDelayedTimeoutMessage rid s) = emitted s"
  by (simp_all add: sendConfirmDelayedTimeoutMessage_def)

lemma archive_fields [simp]:
  "recordId (archive r) = recordId r" "userId (archive r) = userId r"
  "topic (archive r) = topic r" "difficulty (archive r) = difficulty r"
  "socketId (archive r) = socketId r" "roomNumber (archive r) = roomNumber r"
  "matched (archive r) = matched r" "matchedUserId (archive r) = matchedUserId r"
  "isPending (archive r) = isPending r" "isConfirmed (archive r) = isConfirmed r"
  "isArchived (archive r) = True" "questionId (archive r) = questionId r"
  by (simp_all add: archive_def)

lemma find_map_same:
  "(\<And>x. p (g x) = p x) \<Longrightarrow> find p (map g xs) = map_option g (find p xs)"
  by (induction xs) simp_all

lemma find_Some_D: "find p xs = Some x \<Longrightarrow> p x \<and> x \<in> set xs"
  by (induction xs) (auto split: if_splits)

lemma find_filter: "find p xs = (case filter p xs of [] \<Rightarrow> None | x # _ \<Rightarrow> Some x)"
  by (induction xs) simp_all

lemma filter_map_same:
  "(\<And>x. p (g x) = p x) \<Longrightarrow> filter p (map g xs) = map g (filter p xs)"
  by (induction xs) simp_all

lemma same_key_same_row:
  "distinct (map recordId xs) \<Longrightarrow> x \<in> set xs \<Longrightarrow> y \<in> set xs \<Longrightarrow> recordId x = recordId y \<Longrightarrow> x = y"
  by (auto simp: distinct_map dest: inj_onD)

lemma map_update_distinct:
  assumes "distinct (map recordId xs)" and "x \<in> set xs"
  shows "map (\<lambda>r. if recordId r = recordId x then f r else r) xs
         = map (\<lambda>r. if r = x then f r else r) xs"
proof (rule map_cong [OF refl])
  fix r assume "r \<in> set xs"
  with assms have "recordId r = recordId x \<longleftrightarrow> r = x"
    by (auto simp: distinct_map dest: inj_onD)
  then show "(if recordId r = recordId x then f r else r) = (if r = x then f r else r)"
    by simp
qed

subsection \<open>What the store returns\<close>

lemma pickRow_Nil [simp]: "pickRow ch [] = None"
  by (simp add: pickRow_def)

lemma pickRow_single [simp]: "pickRow ch [x] = Some x"
  by (simp add: pickRow_def)

lemma pickRow_None_iff: "pickRow ch ms = None \<longleftrightarrow> ms = []"
  by (cases ms) (simp_all add: pickRow_def)

lemma pickRow_Some_D: "pickRow ch ms = Some x \<Longrightarrow> x \<in> set ms"
proof (cases ms)
  case Nil
  assume "pickRow ch ms = Some x"
  with Nil show ?thesis by simp
next
  case (Cons y ys)
  assume "pickRow ch ms = Some x"
  with Cons have "x = ms ! (ch ms mod length ms)"
    by (simp add: pickRow_def)
  moreover from Cons have "ch ms mod length ms < length ms"
    by simp
  ultimately show ?thesis
    by (simp only: nth_mem)
qed

lemma pickRow_firstRow: "pickRow firstRow ms = (case ms of [] \<Rightarrow> None | x # _ \<Rightarrow> Some x)"
  by (cases ms) (simp_all add: pickRow_def firstRow_def)

lemma findFirst_firstRow: "findFirst firstRow p s = find p (matchRecordTable s)"
  by (simp add: findFirst_def pickRow_firstRow find_filter)

lemma findFirst_Some_D: "findFirst ch p s = Some x \<Longrightarrow> p x \<and> x \<in> set (matchRecordTable s)"
proof -
  assume "findFirst ch p s = Some x"
  then have "x \<in> set (filter p (matchRecordTable s))"
    unfolding findFirst_def by (rule pickRow_Some_D)
  then show ?thesis by simp
qed

lemma findFirst_None_iff:
  "findFirst ch p s = None \<longleftrightarrow> (\<forall>x \<in> set (matchRecordTable s). \<not> p x)"
  by (simp add: findFirst_def pickRow_None_iff filter_empty_conv)

lemma findFirst_found_any: "findFirst ch p s = Some x \<Longrightarrow> findFirst ch' p s \<noteq> None"
proof -
  assume "findFirst ch p s = Some x"
  then have "p x \<and> x \<in> set (matchRecordTable s)"
    by (rule findFirst_Some_D)
  then have "\<not> (\<forall>x \<in> set (matchRecordTable s). \<not> p x)" by blast
  then show ?thesis
    unfolding findFirst_None_iff .
qed

lemma findFirst_single: "filter p (matchRecordTable s) = [x] \<Longrightarrow> findFirst ch p s = Some x"
  by (simp add: findFirst_def)

lemma findFirst_same_filter:
  "filter p (matchRecordTable t) = filter p (matchRecordTable s) \<Longrightarrow>
   findFirst ch p t = findFirst ch p s"
  by (simp add: findFirst_def)

lemma run_Nil [simp]: "run [] s = s"
  by (simp add: run_def)

lemma run_Cons [simp]: "run (step # steps) s = run steps (handle (fst step) (snd step) s)"
  by (simp add: run_def)

lemma run_inPlace: "run (inPlace reqs) s = fold (handle firstRow) reqs s"
  by (induction reqs arbitrary: s) (simp_all add: inPlace_def)

section \<open>Facts about the example runs\<close>

lemma waitingExample_eq:
  "waitingExample =
     \<lparr>matchRecordTable = [aliceWaiting],
      sessionHistoryTable = [], nextRecordId = 2, emitted = [], delayed = []\<rparr>"
  by (simp add: waitingExample_def run_inPlace initialState_def handleUserRequest_def findFirst_firstRow
      existingMatch_def excludedUserIds_def previousUserIds_def newRecord_def create_def
      aliceWaiting_def)

lemma pairedExample_eq:
  "pairedExample =
     \<lparr>matchRecordTable = [alicePending, bobPending],
      sessionHistoryTable = [], nextRecordId = 3,
      emitted = [\<lparr>target = ''sock-b'', event = ''matched'', payload = MatchedObj ''alice'' ''room-2'' 7\<rparr>,
                 \<lparr>target = ''sock-a'', event = ''matched'', payload = MatchedObj ''bob'' ''room-2'' 7\<rparr>],
      delayed = [\<lparr>delayedRecordId = 2, delay = CONFIRM_DELAY_TIME\<rparr>,
                 \<lparr>delayedRecordId = 1, delay = CONFIRM_DELAY_TIME\<rparr>]\<rparr>"
  by (simp add: pairedExample_def run_inPlace initialState_def handleUserRequest_def findFirst_firstRow
      existingMatch_def excludedUserIds_def previousUserIds_def newRecord_def create_def
      aliceWaiting_def alicePending_def bobPending_def update_def emit_def
      sendConfirmDelayedTimeoutMessage_def)

section \<open>Expiry\<close>

lemma in_map_update:
  "x \<in> set xs \<Longrightarrow> f x \<in> set (map (\<lambda>r. if recordId r = recordId x then f r else r) xs)"
  by (induction xs) auto

text \<open>
  \<^bold>\<open>C6\<close> Request timeout. \<open>handleTimeout\<close> looks up a row of the user that is
  neither pending nor archived and whose handle is the one of the message. With no such
  row, the state is unchanged, so nothing is emitted. With such a row, the row that the
  store returns is archived whatever its \<open>matched\<close> flag is, no other key is touched, and
  the event \<open>timeout\<close> is sent to the handle exactly when the row has \<open>matched = false\<close>.
\<close>

theorem handleTimeout_archives:
  "(findFirst ch (\<lambda>r. userId r = uid \<and> \<not> isPending r \<and> \<not> isArchived r \<and> socketId r = sock) s = None
      \<longrightarrow> handleTimeout ch uid sock s = s) \<and>
   (\<forall>result.
      findFirst ch (\<lambda>r. userId r = uid \<and> \<not> isPending r \<and> \<not> isArchived r \<and> socketId r = sock) s = Some result
      \<longrightarrow> matchRecordTable (handleTimeout ch uid sock s) =
            map (\<lambda>r. if recordId r = recordId result then r\<lparr>isArchived := True\<rparr> else r) (matchRecordTable s)
        \<and> result\<lparr>isArchived := True\<rparr> \<in> set (matchRecordTable (handleTimeout ch uid sock s))
        \<and> emitted (handleTimeout ch uid sock s) =
            emitted s @ (if matched result then []
                         else [\<lparr>target = sock, event = ''timeout'', payload = Text msgTimeout\<rparr>])
        \<and> sessionHistoryTable (handleTimeout ch uid sock s) = sessionHistoryTable s
        \<and> nextRecordId (handleTimeout ch uid sock s) = nextRecordId s
        \<and> delayed (handleTimeout ch uid sock s) = delayed s)"
proof (intro conjI allI impI)
  assume "findFirst ch (\<lambda>r. userId r = uid \<and> \<not> isPending r \<and> \<not> isArchived r \<and> socketId r = sock) s = None"
  then show "handleTimeout ch uid sock s = s"
    by (simp add: handleTimeout_def)
next
  fix result
  assume f: "findFirst ch (\<lambda>r. userId r = uid \<and> \<not> isPending r \<and> \<not> isArchived r \<and> socketId r = sock) s = Some result"
  then have mem: "result \<in> set (matchRecordTable s)"
    by (rule findFirst_Some_D [THEN conjunct2])
  show tbl: "matchRecordTable (handleTimeout ch uid sock s) =
      map (\<lambda>r. if recordId r = recordId result then r\<lparr>isArchived := True\<rparr> else r) (matchRecordTable s)"
    using f by (simp add: handleTimeout_def archive_def)
  show "result\<lparr>isArchived := True\<rparr> \<in> set (matchRecordTable (handleTimeout ch uid sock s))"
    unfolding tbl using mem by (rule in_map_update)
  show "emitted (handleTimeout ch uid sock s) =
      emitted s @ (if matched result then []
                   else [\<lparr>target = sock, event = ''timeout'', payload = Text msgTimeout\<rparr>])"
    using f by (simp add: handleTimeout_def)
  show "sessionHistoryTable (handleTimeout ch uid sock s) = sessionHistoryTable s"
    using f by (simp add: handleTimeout_def)
  show "nextRecordId (handleTimeout ch uid sock s) = nextRecordId s"
    using f by (simp add: handleTimeout_def)
  show "delayed (handleTimeout ch uid sock s) = delayed s"
    using f by (simp add: handleTimeout_def)
qed

theorem handleTimeout_archives_witness:
  "findFirst firstRow (\<lambda>r. userId r = ''alice'' \<and> \<not> isPending r \<and> \<not> isArchived r \<and> socketId r = ''sock-a'')
     waitingExample = Some aliceWaiting
   \<and> matchRecordTable (handleTimeout firstRow ''alice'' ''sock-a'' waitingExample) = [aliceWaiting\<lparr>isArchived := True\<rparr>]
   \<and> emitted (handleTimeout firstRow ''alice'' ''sock-a'' waitingExample) =
       [\<lparr>target = ''sock-a'', event = ''timeout'', payload = Text msgTimeout\<rparr>]
   \<and> findFirst firstRow (\<lambda>r. userId r = ''alice'' \<and> \<not> isPending r \<and> \<not> isArchived r \<and> socketId r = ''sock-x'')
       waitingExample = None
   \<and> handleTimeout firstRow ''alice'' ''sock-x'' waitingExample = waitingExample"
proof -
  have f: "findFirst firstRow (\<lambda>r. userId r = ''alice'' \<and> \<not> isPending r \<and> \<not> isArchived r \<and> socketId r = ''sock-a'')
     waitingExample = Some aliceWaiting"
    by (simp add: waitingExample_eq findFirst_firstRow aliceWaiting_def)
  have n: "findFirst firstRow (\<lambda>r. userId r = ''alice'' \<and> \<not> isPending r \<and> \<not> isArchived r \<and> socketId r = ''sock-x'')
       waitingExample = None"
    by (simp add: waitingExample_eq findFirst_firstRow aliceWaiting_def)
  have t: "matchRecordTable waitingExample = [aliceWaiting]" "emitted waitingExample = []"
    "\<not> matched aliceWaiting"
    by (simp_all add: waitingExample_eq aliceWaiting_def)
  from handleTimeout_archives [of firstRow "''alice''" "''sock-a''" waitingExample] f
  have "matchRecordTable (handleTimeout firstRow ''alice'' ''sock-a'' waitingExample) =
          map (\<lambda>r. if recordId r = recordId aliceWaiting then r\<lparr>isArchived := True\<rparr> else r)
            (matchRecordTable waitingExample)"
    and "emitted (handleTimeout firstRow ''alice'' ''sock-a'' waitingExample) =
          emitted waitingExample @ (if matched aliceWaiting then []
             else [\<lparr>target = ''sock-a'', event = ''timeout'', payload = Text msgTimeout\<rparr>])"
    by blast+
  moreover from handleTimeout_archives [of firstRow "''alice''" "''sock-x''" waitingExample] n
  have "handleTimeout firstRow ''alice'' ''sock-x'' waitingExample = waitingExample"
    by blast
  ultimately show ?thesis
    using f n by (simp add: t)
qed

lemma findUnique_update_archive:
  "findUnique rid (update rid archive s) = map_option archive (findUnique rid s)"
proof -
  have "find (\<lambda>r. recordId r = rid) (map (\<lambda>r. if recordId r = rid then archive r else r) xs)
        = map_option (\<lambda>r. if recordId r = rid then archive r else r) (find (\<lambda>r. recordId r = rid) xs)" for xs
    by (rule find_map_same) simp
  then have "findUnique rid (update rid archive s)
      = map_option (\<lambda>r. if recordId r = rid then archive r else r) (findUnique rid s)"
    by (simp add: findUnique_def)
  also have "\<dots> = map_option archive (findUnique rid s)"
  proof (cases "findUnique rid s")
    case None
    then show ?thesis by simp
  next
    case (Some r)
    then have "recordId r = rid"
      unfolding findUnique_def by (rule find_Some_D [THEN conjunct1])
    with Some show ?thesis by simp
  qed
  finally show ?thesis .
qed

lemma findUnique_emit [simp]: "findUnique rid (emit h e p s) = findUnique rid s"
  by (simp add: findUnique_def)

text \<open>
  \<^bold>\<open>C7\<close> Confirm timeout. \<open>handleConfirmTimeout\<close> leaves the state as it is (no
  change, no event) when no row has the given key or when the row is archived already.
  Otherwise it sends exactly one \<open>matching_fail\<close> to the row's handle and archives the
  row, touching nothing else. Run a second time with the same key it changes nothing more:
  at most one event, one archival.
\<close>

theorem handleConfirmTimeout_once:
  "(findUnique rid s = None \<longrightarrow> handleConfirmTimeout rid s = s) \<and>
   (\<forall>result. findUnique rid s = Some result \<and> isArchived result
      \<longrightarrow> handleConfirmTimeout rid s = s) \<and>
   (\<forall>result. findUnique rid s = Some result \<and> \<not> isArchived result
      \<longrightarrow> emitted (handleConfirmTimeout rid s) =
            emitted s @ [\<lparr>target = socketId result, event = ''matching_fail'',
                           payload = Text msgNotConfirmed\<rparr>]
        \<and> matchRecordTable (handleConfirmTimeout rid s) =
            map (\<lambda>r. if recordId r = rid then r\<lparr>isArchived := True\<rparr> else r) (matchRecordTable s)
        \<and> findUnique rid (handleConfirmTimeout rid s) = Some (result\<lparr>isArchived := True\<rparr>)
        \<and> sessionHistoryTable (handleConfirmTimeout rid s) = sessionHistoryTable s
        \<and> nextRecordId (handleConfirmTimeout rid s) = nextRecordId s
        \<and> delayed (handleConfirmTimeout rid s) = delayed s) \<and>
   handleConfirmTimeout rid (handleConfirmTimeout rid s) = handleConfirmTimeout rid s"
proof (intro conjI allI impI)
  assume "findUnique rid s = None"
  then show "handleConfirmTimeout rid s = s"
    by (simp add: handleConfirmTimeout_def)
next
  fix result
  assume "findUnique rid s = Some result \<and> isArchived result"
  then show "handleConfirmTimeout rid s = s"
    by (simp add: handleConfirmTimeout_def)
next
  fix result
  assume a: "findUnique rid s = Some result \<and> \<not> isArchived result"
  then have step: "handleConfirmTimeout rid s =
      update rid archive (emit (socketId result) ''matching_fail'' (Text msgNotConfirmed) s)"
    by (simp add: handleConfirmTimeout_def)
  show "emitted (handleConfirmTimeout rid s) =
      emitted s @ [\<lparr>target = socketId result, event = ''matching_fail'', payload = Text msgNotConfirmed\<rparr>]"
    by (simp add: step)
  show "matchRecordTable (handleConfirmTimeout rid s) =
      map (\<lambda>r. if recordId r = rid then r\<lparr>isArchived := True\<rparr> else r) (matchRecordTable s)"
    by (simp add: step archive_def)
  show "findUnique rid (handleConfirmTimeout rid s) = Some (result\<lparr>isArchived := True\<rparr>)"
    using a by (simp add: step findUnique_update_archive archive_def)
  show "sessionHistoryTable (handleConfirmTimeout rid s) = sessionHistoryTable s"
    by (simp add: step)
  show "nextRecordId (handleConfirmTimeout rid s) = nextRecordId s"
    by (simp add: step)
  show "delayed (handleConfirmTimeout rid s) = delayed s"
    by (simp add: step)
next
  show "handleConfirmTimeout rid (handleConfirmTimeout rid s) = handleConfirmTimeout rid s"
  proof (cases "findUnique rid s")
    case None
    then show ?thesis by (simp add: handleConfirmTimeout_def)
  next
    case (Some result)
    show ?thesis
    proof (cases "isArchived result")
      case True
      with Some show ?thesis by (simp add: handleConfirmTimeout_def)
    next
      case False
      with Some have step: "handleConfirmTimeout rid s =
          update rid archive (emit (socketId result) ''matching_fail'' (Text msgNotConfirmed) s)"
        by (simp add: handleConfirmTimeout_def)
      have "findUnique rid (handleConfirmTimeout rid s) = Some (archive result)"
        using Some by (simp add: step findUnique_update_archive)
      then show ?thesis
        by (simp add: handleConfirmTimeout_def [of rid "handleConfirmTimeout rid s"])
    qed
  qed
qed

theorem handleConfirmTimeout_once_witness:
  "findUnique 2 pairedExample = Some bobPending \<and> \<not> isArchived bobPending
   \<and> emitted (handleConfirmTimeout 2 pairedExample) =
       emitted pairedExample @ [\<lparr>target = ''sock-b'', event = ''matching_fail'',
                                  payload = Text msgNotConfirmed\<rparr>]
   \<and> matchRecordTable (handleConfirmTimeout 2 pairedExample) =
       [alicePending, bobPending\<lparr>isArchived := True\<rparr>]
   \<and> findUnique 2 (handleConfirmTimeout 2 pairedExample) = Some (bobPending\<lparr>isArchived := True\<rparr>)
   \<and> handleConfirmTimeout 2 (handleConfirmTimeout 2 pairedExample) = handleConfirmTimeout 2 pairedExample
   \<and> findUnique 5 pairedExample = None
   \<and> handleConfirmTimeout 5 pairedExample = pairedExample"
proof -
  have f: "findUnique 2 pairedExample = Some bobPending \<and> \<not> isArchived bobPending"
    by (simp add: pairedExample_eq findUnique_def alicePending_def aliceWaiting_def bobPending_def)
  have n: "findUnique 5 pairedExample = None"
    by (simp add: pairedExample_eq findUnique_def alicePending_def aliceWaiting_def bobPending_def)
  have t: "matchRecordTable pairedExample = [alicePending, bobPending]"
    "recordId alicePending = 1" "recordId bobPending = 2" "socketId bobPending = ''sock-b''"
    by (simp_all add: pairedExample_eq alicePending_def aliceWaiting_def bobPending_def)
  from handleConfirmTimeout_once [of 2 pairedExample] f
  have "emitted (handleConfirmTimeout 2 pairedExample) =
          emitted pairedExample @ [\<lparr>target = socketId bobPending, event = ''matching_fail'',
                                     payload = Text msgNotConfirmed\<rparr>]"
    and "matchRecordTable (handleConfirmTimeout 2 pairedExample) =
          map (\<lambda>r. if recordId r = 2 then r\<lparr>isArchived := True\<rparr> else r) (matchRecordTable pairedExample)"
    and "findUnique 2 (handleConfirmTimeout 2 pairedExample) = Some (bobPending\<lparr>isArchived := True\<rparr>)"
    and "handleConfirmTimeout 2 (handleConfirmTimeout 2 pairedExample) = handleConfirmTimeout 2 pairedExample"
    by blast+
  moreover from handleConfirmTimeout_once [of 5 pairedExample] n
  have "handleConfirmTimeout 5 pairedExample = pairedExample"
    by blast
  ultimately show ?thesis
    using f n by (simp add: t)
qed

section \<open>The confirmation handshake\<close>

lemma findFirst_emit [simp]: "findFirst ch p (emit h e q s) = findFirst ch p s"
  by (simp add: findFirst_def)

lemma filter_update_same:
  "(\<And>x. p (f x) = p x) \<Longrightarrow>
   filter p (matchRecordTable (update rid f s))
     = map (\<lambda>r. if recordId r = rid then f r else r) (filter p (matchRecordTable s))"
  unfolding update_fields by (rule filter_map_same) simp

lemma handleMatchingConfirm_both:
  assumes "findUserRecord ch uid s = Some userRecord" and "findMatchedRecord ch uid s = Some matchedRecord"
  shows "handleMatchingConfirm ch uid s =
     (if isConfirmed userRecord then s
      else if isConfirmed matchedRecord
      then inOrder
             [update (recordId userRecord) (\<lambda>r. r\<lparr>isConfirmed := True\<rparr>),
              update (recordId matchedRecord) archive,
              update (recordId userRecord) archive,
              createSession
                \<lparr>sessionRoomNumber = roomNumber matchedRecord,
                 sessionQuestionId = nullish (questionId matchedRecord) (questionId userRecord),
                 isOngoing = True,
                 userOneId = userId userRecord,
                 userTwoId = userId matchedRecord\<rparr>,
              emit (socketId userRecord) ''matching_success'' (Text msgSuccess),
              emit (socketId matchedRecord) ''matching_success'' (Text msgSuccess)] s
      else inOrder
             [update (recordId userRecord) (\<lambda>r. r\<lparr>isConfirmed := True\<rparr>),
              emit (socketId matchedRecord) ''other_accepted'' (Text msgOtherAccepted)] s)"
  unfolding handleMatchingConfirm_def assms by simp

text \<open>The first confirm of a user whose one pending row and whose counterpart are unconfirmed.\<close>

lemma confirm_once:
  assumes d: "distinct (map recordId (matchRecordTable s))"
    and one: "filter (\<lambda>r. userId r = uid \<and> isPending r \<and> \<not> isArchived r) (matchRecordTable s) = [userRecord]"
    and m: "findMatchedRecord ch uid s = Some matchedRecord"
    and nu: "\<not> isConfirmed userRecord" and nm: "\<not> isConfirmed matchedRecord"
  shows "handleMatchingConfirm ch uid s =
           emit (socketId matchedRecord) ''other_accepted'' (Text msgOtherAccepted)
             (update (recordId userRecord) (\<lambda>r. r\<lparr>isConfirmed := True\<rparr>) s)"
    and "matchRecordTable (handleMatchingConfirm ch uid s) =
           map (\<lambda>r. if r = userRecord then r\<lparr>isConfirmed := True\<rparr> else r) (matchRecordTable s)"
    and "filter (\<lambda>r. userId r = uid \<and> isPending r \<and> \<not> isArchived r)
           (matchRecordTable (handleMatchingConfirm ch uid s)) = [userRecord\<lparr>isConfirmed := True\<rparr>]"
    and "findMatchedRecord ch' uid (handleMatchingConfirm ch uid s) \<noteq> None"
proof -
  from one have u: "findUserRecord ch uid s = Some userRecord"
    unfolding findUserRecord_def by (rule findFirst_single)
  from one have "userRecord \<in> set (filter (\<lambda>r. userId r = uid \<and> isPending r \<and> \<not> isArchived r)
      (matchRecordTable s))"
    by simp
  then have mem: "userRecord \<in> set (matchRecordTable s)" by simp
  show step: "handleMatchingConfirm ch uid s =
           emit (socketId matchedRecord) ''other_accepted'' (Text msgOtherAccepted)
             (update (recordId userRecord) (\<lambda>r. r\<lparr>isConfirmed := True\<rparr>) s)"
    using nu nm by (simp add: handleMatchingConfirm_both [OF u m])
  show "matchRecordTable (handleMatchingConfirm ch uid s) =
           map (\<lambda>r. if r = userRecord then r\<lparr>isConfirmed := True\<rparr> else r) (matchRecordTable s)"
    by (simp add: step map_update_distinct [OF d mem])
  show "filter (\<lambda>r. userId r = uid \<and> isPending r \<and> \<not> isArchived r)
           (matchRecordTable (handleMatchingConfirm ch uid s)) = [userRecord\<lparr>isConfirmed := True\<rparr>]"
    by (simp add: step filter_update_same one del: update_fields)
  from m have "findFirst ch (\<lambda>r. matchedUserId r = Some uid \<and> isPending r \<and> \<not> isArchived r) s \<noteq> None"
    unfolding findMatchedRecord_def by (rule findFirst_found_any)
  then have "filter (\<lambda>r. matchedUserId r = Some uid \<and> isPending r \<and> \<not> isArchived r) (matchRecordTable s) \<noteq> []"
    by (simp add: findFirst_def pickRow_None_iff)
  then have "filter (\<lambda>r. matchedUserId r = Some uid \<and> isPending r \<and> \<not> isArchived r)
      (matchRecordTable (handleMatchingConfirm ch uid s)) \<noteq> []"
    by (simp add: step filter_update_same del: update_fields)
  then show "findMatchedRecord ch' uid (handleMatchingConfirm ch uid s) \<noteq> None"
    by (simp add: findMatchedRecord_def findFirst_def pickRow_None_iff)
qed

text \<open>
  \<^bold>\<open>C5\<close> A repeated confirm. When both rows are found (present, pending, not archived)
  and the caller's row is confirmed already, \<open>handleMatchingConfirm\<close> returns the state
  it was given: no row changes and no event is sent. For a user who holds exactly one
  pending, non-archived row, in a table with distinct keys and before the counterpart has
  confirmed, a second confirm directly after the first adds nothing to it, whatever the
  store returns at either call; and together the two confirms set \<open>isConfirmed\<close> on the
  user's row, change no other row and no other field, and send the one \<open>other_accepted\<close>
  to the counterpart's handle.
\<close>

theorem handleMatchingConfirm_idempotent:
  "(findUserRecord ch uid s = Some userRecord \<and> findMatchedRecord ch uid s = Some matchedRecord
      \<and> isConfirmed userRecord
      \<longrightarrow> handleMatchingConfirm ch uid s = s)
   \<and> (distinct (map recordId (matchRecordTable s))
      \<and> filter (\<lambda>r. userId r = uid \<and> isPending r \<and> \<not> isArchived r) (matchRecordTable s) = [userRecord]
      \<and> findMatchedRecord ch uid s = Some matchedRecord \<and> \<not> isConfirmed matchedRecord
      \<longrightarrow> handleMatchingConfirm ch' uid (handleMatchingConfirm ch uid s) = handleMatchingConfirm ch uid s)
   \<and> (distinct (map recordId (matchRecordTable s))
      \<and> filter (\<lambda>r. userId r = uid \<and> isPending r \<and> \<not> isArchived r) (matchRecordTable s) = [userRecord]
      \<and> findMatchedRecord ch uid s = Some matchedRecord
      \<and> \<not> isConfirmed userRecord \<and> \<not> isConfirmed matchedRecord
      \<longrightarrow> matchRecordTable (handleMatchingConfirm ch' uid (handleMatchingConfirm ch uid s)) =
            map (\<lambda>r. if r = userRecord then r\<lparr>isConfirmed := True\<rparr> else r) (matchRecordTable s)
        \<and> emitted (handleMatchingConfirm ch' uid (handleMatchingConfirm ch uid s)) =
            emitted s @ [\<lparr>target = socketId matchedRecord, event = ''other_accepted'',
                           payload = Text msgOtherAccepted\<rparr>]
        \<and> sessionHistoryTable (handleMatchingConfirm ch' uid (handleMatchingConfirm ch uid s)) = sessionHistoryTable s
        \<and> nextRecordId (handleMatchingConfirm ch' uid (handleMatchingConfirm ch uid s)) = nextRecordId s
        \<and> delayed (handleMatchingConfirm ch' uid (handleMatchingConfirm ch uid s)) = delayed s)"
proof (intro conjI impI)
  assume "findUserRecord ch uid s = Some userRecord \<and> findMatchedRecord ch uid s = Some matchedRecord
      \<and> isConfirmed userRecord"
  then show "handleMatchingConfirm ch uid s = s"
    by (simp add: handleMatchingConfirm_both [of ch uid s userRecord matchedRecord])
next
  assume a: "distinct (map recordId (matchRecordTable s))
      \<and> filter (\<lambda>r. userId r = uid \<and> isPending r \<and> \<not> isArchived r) (matchRecordTable s) = [userRecord]
      \<and> findMatchedRecord ch uid s = Some matchedRecord \<and> \<not> isConfirmed matchedRecord"
  then have d: "distinct (map recordId (matchRecordTable s))"
    and one: "filter (\<lambda>r. userId r = uid \<and> isPending r \<and> \<not> isArchived r) (matchRecordTable s) = [userRecord]"
    and m: "findMatchedRecord ch uid s = Some matchedRecord" and nm: "\<not> isConfirmed matchedRecord"
    by simp_all
  let ?s' = "handleMatchingConfirm ch uid s"
  show "handleMatchingConfirm ch' uid ?s' = ?s'"
  proof (cases "isConfirmed userRecord")
    case True
    from one have u: "findUserRecord ch uid s = Some userRecord"
      and u': "findUserRecord ch' uid s = Some userRecord"
      unfolding findUserRecord_def by (rule findFirst_single)+
    from True have same: "?s' = s"
      by (simp add: handleMatchingConfirm_both [OF u m])
    from m have "findMatchedRecord ch' uid s \<noteq> None"
      unfolding findMatchedRecord_def by (rule findFirst_found_any)
    then obtain x where "findMatchedRecord ch' uid s = Some x" by blast
    with True show ?thesis
      unfolding same by (simp add: handleMatchingConfirm_both [OF u'])
  next
    case False
    note c = confirm_once [OF d one m False nm]
    from c(3) have u': "findUserRecord ch' uid ?s' = Some (userRecord\<lparr>isConfirmed := True\<rparr>)"
      unfolding findUserRecord_def by (rule findFirst_single)
    from c(4) [of ch'] obtain x where "findMatchedRecord ch' uid ?s' = Some x" by blast
    then show ?thesis
      by (simp add: handleMatchingConfirm_both [OF u'])
  qed
next
  assume a: "distinct (map recordId (matchRecordTable s))
      \<and> filter (\<lambda>r. userId r = uid \<and> isPending r \<and> \<not> isArchived r) (matchRecordTable s) = [userRecord]
      \<and> findMatchedRecord ch uid s = Some matchedRecord
      \<and> \<not> isConfirmed userRecord \<and> \<not> isConfirmed matchedRecord"
  then have d: "distinct (map recordId (matchRecordTable s))"
    and one: "filter (\<lambda>r. userId r = uid \<and> isPending r \<and> \<not> isArchived r) (matchRecordTable s) = [userRecord]"
    and m: "findMatchedRecord ch uid s = Some matchedRecord"
    and nu: "\<not> isConfirmed userRecord" and nm: "\<not> isConfirmed matchedRecord"
    by simp_all
  let ?s' = "handleMatchingConfirm ch uid s"
  note c = confirm_once [OF d one m nu nm]
  from c(3) have u': "findUserRecord ch' uid ?s' = Some (userRecord\<lparr>isConfirmed := True\<rparr>)"
    unfolding findUserRecord_def by (rule findFirst_single)
  from c(4) [of ch'] obtain x where "findMatchedRecord ch' uid ?s' = Some x" by blast
  then have twice: "handleMatchingConfirm ch' uid ?s' = ?s'"
    by (simp add: handleMatchingConfirm_both [OF u'])
  show "matchRecordTable (handleMatchingConfirm ch' uid ?s') =
      map (\<lambda>r. if r = userRecord then r\<lparr>isConfirmed := True\<rparr> else r) (matchRecordTable s)"
    unfolding twice by (rule c(2))
  show "emitted (handleMatchingConfirm ch' uid ?s') =
      emitted s @ [\<lparr>target = socketId matchedRecord, event = ''other_accepted'',
                     payload = Text msgOtherAccepted\<rparr>]"
    unfolding twice by (simp add: c(1))
  show "sessionHistoryTable (handleMatchingConfirm ch' uid ?s') = sessionHistoryTable s"
    unfolding twice by (simp add: c(1))
  show "nextRecordId (handleMatchingConfirm ch' uid ?s') = nextRecordId s"
    unfolding twice by (simp add: c(1))
  show "delayed (handleMatchingConfirm ch' uid ?s') = delayed s"
    unfolding twice by (simp add: c(1))
qed

theorem handleMatchingConfirm_idempotent_witness:
  "distinct (map recordId (matchRecordTable pairedExample))
   \<and> filter (\<lambda>r. userId r = ''alice'' \<and> isPending r \<and> \<not> isArchived r) (matchRecordTable pairedExample)
       = [alicePending]
   \<and> findMatchedRecord firstRow ''alice'' pairedExample = Some bobPending
   \<and> \<not> isConfirmed alicePending \<and> \<not> isConfirmed bobPending
   \<and> handleMatchingConfirm unconfirmedFirst ''alice'' (handleMatchingConfirm firstRow ''alice'' pairedExample)
       = handleMatchingConfirm firstRow ''alice'' pairedExample
   \<and> matchRecordTable
        (handleMatchingConfirm unconfirmedFirst ''alice'' (handleMatchingConfirm firstRow ''alice'' pairedExample))
       = [alicePending\<lparr>isConfirmed := True\<rparr>, bobPending]
   \<and> emitted
        (handleMatchingConfirm unconfirmedFirst ''alice'' (handleMatchingConfirm firstRow ''alice'' pairedExample))
       = emitted pairedExample @ [\<lparr>target = ''sock-b'', event = ''other_accepted'',
                                    payload = Text msgOtherAccepted\<rparr>]
   \<and> findUserRecord unconfirmedFirst ''alice'' (handleMatchingConfirm firstRow ''alice'' pairedExample)
       = Some (alicePending\<lparr>isConfirmed := True\<rparr>)
   \<and> findMatchedRecord unconfirmedFirst ''alice'' (handleMatchingConfirm firstRow ''alice'' pairedExample)
       = Some bobPending
   \<and> isConfirmed (alicePending\<lparr>isConfirmed := True\<rparr>)"
proof -
  have t: "matchRecordTable pairedExample = [alicePending, bobPending]"
    by (simp add: pairedExample_eq)
  have d: "distinct (map recordId (matchRecordTable pairedExample))"
    by (simp add: t alicePending_def aliceWaiting_def bobPending_def)
  have one: "filter (\<lambda>r. userId r = ''alice'' \<and> isPending r \<and> \<not> isArchived r) (matchRecordTable pairedExample)
       = [alicePending]"
    by (simp add: t alicePending_def aliceWaiting_def bobPending_def)
  have m: "findMatchedRecord firstRow ''alice'' pairedExample = Some bobPending"
    by (simp add: t findMatchedRecord_def findFirst_firstRow alicePending_def
        aliceWaiting_def bobPending_def)
  have c: "\<not> isConfirmed alicePending" "\<not> isConfirmed bobPending" "socketId bobPending = ''sock-b''"
    "alicePending \<noteq> bobPending"
    by (simp_all add: alicePending_def aliceWaiting_def bobPending_def)
  note once = confirm_once [OF d one m c(1,2)]
  have t': "matchRecordTable (handleMatchingConfirm firstRow ''alice'' pairedExample)
      = [alicePending\<lparr>isConfirmed := True\<rparr>, bobPending]"
    using c(4) by (simp add: once(2) t)
  have u': "findUserRecord unconfirmedFirst ''alice'' (handleMatchingConfirm firstRow ''alice'' pairedExample)
       = Some (alicePending\<lparr>isConfirmed := True\<rparr>)"
    unfolding findUserRecord_def using once(3) by (rule findFirst_single)
  have "filter (\<lambda>r. matchedUserId r = Some ''alice'' \<and> isPending r \<and> \<not> isArchived r)
      (matchRecordTable (handleMatchingConfirm firstRow ''alice'' pairedExample)) = [bobPending]"
    by (simp add: t' alicePending_def aliceWaiting_def bobPending_def)
  then have m': "findMatchedRecord unconfirmedFirst ''alice'' (handleMatchingConfirm firstRow ''alice'' pairedExample)
       = Some bobPending"
    unfolding findMatchedRecord_def by (rule findFirst_single)
  have i: "isConfirmed (alicePending\<lparr>isConfirmed := True\<rparr>)" by simp
  from handleMatchingConfirm_idempotent
    [of unconfirmedFirst "''alice''" "handleMatchingConfirm firstRow ''alice'' pairedExample"
        "alicePending\<lparr>isConfirmed := True\<rparr>" bobPending] u' m' i
  have "handleMatchingConfirm unconfirmedFirst ''alice'' (handleMatchingConfirm firstRow ''alice'' pairedExample)
       = handleMatchingConfirm firstRow ''alice'' pairedExample"
    by blast
  moreover from handleMatchingConfirm_idempotent
    [of firstRow "''alice''" pairedExample alicePending bobPending unconfirmedFirst] d one m c(1,2)
  have "matchRecordTable
        (handleMatchingConfirm unconfirmedFirst ''alice'' (handleMatchingConfirm firstRow ''alice'' pairedExample))
       = map (\<lambda>r. if r = alicePending then r\<lparr>isConfirmed := True\<rparr> else r) (matchRecordTable pairedExample)"
    and "emitted
        (handleMatchingConfirm unconfirmedFirst ''alice'' (handleMatchingConfirm firstRow ''alice'' pairedExample))
       = emitted pairedExample @ [\<lparr>target = socketId bobPending, event = ''other_accepted'',
                                    payload = Text msgOtherAccepted\<rparr>]"
    by blast+
  ultimately show ?thesis
    using d one m c u' m' i by (simp add: t)
qed

lemma twoRowsExample_tables:
  "matchRecordTable twoRowsExample = [carolPaired, bobPaired, bobSecond, aliceSecond]"
  "length (emitted twoRowsExample) = 4"
  by (simp_all add: twoRowsExample_def run_inPlace initialState_def handleUserRequest_def
      findFirst_firstRow existingMatch_def excludedUserIds_def previousUserIds_def newRecord_def
      carolPaired_def bobPaired_def bobSecond_def aliceSecond_def
      carolExpired_def bobExpired_def bobStale_def aliceStale_def)

text \<open>
  The claim as worded has no condition on the rows of the user. In the state reached by
  the four requests of \<open>twoRowsExample\<close> bob holds two pending rows and nobody has
  confirmed. With a store that returns an unconfirmed row before a confirmed one, bob's
  first confirm is taken on his first row and his second confirm on his second row, both
  against carol's row: the two confirms change two rows and send \<open>other_accepted\<close> to
  carol's handle twice.
\<close>

theorem handleMatchingConfirm_idempotent_counterexample:
  "findUserRecord unconfirmedFirst ''bob'' twoRowsExample = Some bobPaired
   \<and> findMatchedRecord unconfirmedFirst ''bob'' twoRowsExample = Some carolPaired
   \<and> map isConfirmed (matchRecordTable twoRowsExample) = [False, False, False, False]
   \<and> map isArchived (matchRecordTable twoRowsExample) = [False, False, False, False]
   \<and> map isConfirmed (matchRecordTable (handleMatchingConfirm unconfirmedFirst ''bob'' twoRowsExample))
       = [False, True, False, False]
   \<and> map isConfirmed (matchRecordTable
        (handleMatchingConfirm unconfirmedFirst ''bob''
          (handleMatchingConfirm unconfirmedFirst ''bob'' twoRowsExample)))
       = [False, True, True, False]
   \<and> map event (drop 4 (emitted
        (handleMatchingConfirm unconfirmedFirst ''bob''
          (handleMatchingConfirm unconfirmedFirst ''bob'' twoRowsExample))))
       = [''other_accepted'', ''other_accepted'']
   \<and> map target (drop 4 (emitted
        (handleMatchingConfirm unconfirmedFirst ''bob''
          (handleMatchingConfirm unconfirmedFirst ''bob'' twoRowsExample))))
       = [''sock-c'', ''sock-c'']"
proof -
  note rows = carolPaired_def bobPaired_def bobSecond_def aliceSecond_def
    carolExpired_def bobExpired_def bobStale_def aliceStale_def
  note t = twoRowsExample_tables
  have u: "findUserRecord unconfirmedFirst ''bob'' twoRowsExample = Some bobPaired"
    by (simp add: findUserRecord_def findFirst_def pickRow_def unconfirmedFirst_def t rows)
  have m: "findMatchedRecord unconfirmedFirst ''bob'' twoRowsExample = Some carolPaired"
    by (simp add: findMatchedRecord_def findFirst_def pickRow_def unconfirmedFirst_def t rows)
  have n: "\<not> isConfirmed bobPaired" "\<not> isConfirmed carolPaired" "\<not> isConfirmed bobSecond"
    by (simp_all add: rows)
  let ?s1 = "handleMatchingConfirm unconfirmedFirst ''bob'' twoRowsExample"
  have s1: "?s1 = emit (socketId carolPaired) ''other_accepted'' (Text msgOtherAccepted)
      (update (recordId bobPaired) (\<lambda>r. r\<lparr>isConfirmed := True\<rparr>) twoRowsExample)"
    using n by (simp add: handleMatchingConfirm_both [OF u m])
  have t1: "matchRecordTable ?s1 = [carolPaired, bobPaired\<lparr>isConfirmed := True\<rparr>, bobSecond, aliceSecond]"
    unfolding s1 by (simp add: t rows)
  have u1: "findUserRecord unconfirmedFirst ''bob'' ?s1 = Some bobSecond"
    by (simp add: findUserRecord_def findFirst_def pickRow_def unconfirmedFirst_def t1 rows)
  have m1: "findMatchedRecord unconfirmedFirst ''bob'' ?s1 = Some carolPaired"
    by (simp add: findMatchedRecord_def findFirst_def pickRow_def unconfirmedFirst_def t1 rows)
  have s2: "handleMatchingConfirm unconfirmedFirst ''bob'' ?s1 =
      emit (socketId carolPaired) ''other_accepted'' (Text msgOtherAccepted)
        (update (recordId bobSecond) (\<lambda>r. r\<lparr>isConfirmed := True\<rparr>) ?s1)"
    using n by (simp add: handleMatchingConfirm_both [OF u1 m1])
  have e1: "emitted ?s1 = emitted twoRowsExample @
      [\<lparr>target = socketId carolPaired, event = ''other_accepted'', payload = Text msgOtherAccepted\<rparr>]"
    unfolding s1 by simp
  show ?thesis
    using u m unfolding s2
    by (simp add: t1 e1 t) (simp add: t rows)
qed

section \<open>Request intake\<close>

lemma existingMatch_Some_D:
  assumes "existingMatch ch uid tpc diff s = Some em"
  shows "em \<in> set (matchRecordTable s) \<and> topic em = tpc \<and> \<not> matched em \<and> \<not> isArchived em
         \<and> userId em \<noteq> uid"
proof -
  from assms obtain p where f: "findFirst ch p s = Some em"
    and p: "\<And>r. p r \<Longrightarrow> topic r = tpc \<and> \<not> matched r \<and> \<not> isArchived r \<and> userId r \<noteq> uid"
    unfolding existingMatch_def excludedUserIds_def
    by (fastforce split: option.splits)
  from findFirst_Some_D [OF f] p show ?thesis by blast
qed

text \<open>
  \<^bold>\<open>C8\<close> No question for the pairing. When the requester has no outstanding row, a
  candidate is selected and the question lookup returns nothing, \<open>handleUserRequest\<close>
  sends \<open>question_error\<close> to the requester's handle and then to the candidate's, deletes
  the candidate's row, and does nothing else: no row is created or updated (the requester
  has no row afterwards unless he had one before), no session is written, no expiry is
  scheduled and the key counter stands.
\<close>

theorem handleUserRequest_no_question:
  assumes "findFirst ch (\<lambda>r. userId r = uid \<and> \<not> isPending r \<and> \<not> isArchived r) s = None"
    and "existingMatch ch uid tpc diff s = Some em"
  shows "emitted (handleUserRequest ch room None uid tpc diff sock s) =
           emitted s @ [\<lparr>target = sock, event = ''question_error'', payload = MessageObj msgNoQuestion\<rparr>,
                        \<lparr>target = socketId em, event = ''question_error'', payload = MessageObj msgNoQuestion\<rparr>]
       \<and> matchRecordTable (handleUserRequest ch room None uid tpc diff sock s) =
           filter (\<lambda>r. recordId r \<noteq> recordId em) (matchRecordTable s)
       \<and> em \<in> set (matchRecordTable s)
       \<and> em \<notin> set (matchRecordTable (handleUserRequest ch room None uid tpc diff sock s))
       \<and> sessionHistoryTable (handleUserRequest ch room None uid tpc diff sock s) = sessionHistoryTable s
       \<and> nextRecordId (handleUserRequest ch room None uid tpc diff sock s) = nextRecordId s
       \<and> delayed (handleUserRequest ch room None uid tpc diff sock s) = delayed s"
proof -
  have step: "handleUserRequest ch room None uid tpc diff sock s =
      delete (recordId em)
        (emit (socketId em) ''question_error'' (MessageObj msgNoQuestion)
          (emit sock ''question_error'' (MessageObj msgNoQuestion) s))"
    unfolding handleUserRequest_def assms by simp
  from existingMatch_Some_D [OF assms(2)] have "em \<in> set (matchRecordTable s)" by blast
  then show ?thesis
    by (simp add: step)
qed

theorem handleUserRequest_no_question_witness:
  "findFirst firstRow (\<lambda>r. userId r = ''bob'' \<and> \<not> isPending r \<and> \<not> isArchived r) waitingExample = None
   \<and> existingMatch firstRow ''bob'' ''arrays'' ''easy'' waitingExample = Some aliceWaiting
   \<and> emitted (handleUserRequest firstRow ''room-2'' None ''bob'' ''arrays'' ''easy'' ''sock-b'' waitingExample) =
       [\<lparr>target = ''sock-b'', event = ''question_error'', payload = MessageObj msgNoQuestion\<rparr>,
        \<lparr>target = ''sock-a'', event = ''question_error'', payload = MessageObj msgNoQuestion\<rparr>]
   \<and> matchRecordTable (handleUserRequest firstRow ''room-2'' None ''bob'' ''arrays'' ''easy'' ''sock-b'' waitingExample) = []
   \<and> delayed (handleUserRequest firstRow ''room-2'' None ''bob'' ''arrays'' ''easy'' ''sock-b'' waitingExample) = []
   \<and> nextRecordId (handleUserRequest firstRow ''room-2'' None ''bob'' ''arrays'' ''easy'' ''sock-b'' waitingExample) = 2"
proof -
  have g: "findFirst firstRow (\<lambda>r. userId r = ''bob'' \<and> \<not> isPending r \<and> \<not> isArchived r) waitingExample = None"
    by (simp add: waitingExample_eq findFirst_firstRow aliceWaiting_def)
  have c: "existingMatch firstRow ''bob'' ''arrays'' ''easy'' waitingExample = Some aliceWaiting"
    by (simp add: waitingExample_eq existingMatch_def findFirst_firstRow excludedUserIds_def
        previousUserIds_def aliceWaiting_def)
  have t: "matchRecordTable waitingExample = [aliceWaiting]" "emitted waitingExample = []"
    "delayed waitingExample = []" "nextRecordId waitingExample = 2"
    "socketId aliceWaiting = ''sock-a''"
    by (simp_all add: waitingExample_eq aliceWaiting_def)
  from handleUserRequest_no_question [OF g c, of "''room-2''" "''sock-b''"] g c
  show ?thesis by (simp add: t)
qed

section \<open>Candidate selection\<close>

lemma rematchExample_tables:
  "matchRecordTable rematchExample =
     [alicePending\<lparr>isConfirmed := True, isArchived := True\<rparr>,
      bobPending\<lparr>isConfirmed := True, isArchived := True\<rparr>, aliceAgain]"
  "sessionHistoryTable rematchExample =
     [\<lparr>sessionRoomNumber = ''room-1'', sessionQuestionId = 7, isOngoing = True,
       userOneId = ''bob'', userTwoId = ''alice''\<rparr>]"
  by (simp_all add: rematchExample_def pairedExample_eq run_inPlace handleMatchingConfirm_def
      findUserRecord_def findMatchedRecord_def findFirst_firstRow handleUserRequest_def
      existingMatch_def excludedUserIds_def previousUserIds_def newRecord_def nullish_def
      alicePending_def aliceWaiting_def bobPending_def aliceAgain_def archive_def)

lemma firstOfTiers_Cons:
  "firstOfTiers ch (t # ts) = (case pickRow ch t of None \<Rightarrow> firstOfTiers ch ts | Some x \<Rightarrow> Some x)"
  by (cases "t = []") (simp_all add: pickRow_def)

lemma excludedUserIds_spec: "set (excludedUserIds uid s) = spec_excludedUserIds uid s"
  unfolding excludedUserIds_def previousUserIds_def spec_excludedUserIds_def
  by (induction "sessionHistoryTable s") auto

text \<open>
  \<^bold>\<open>C3\<close> Candidate selection. The candidate that \<open>handleUserRequest\<close> computes is the
  one of the specification: the row that the store returns from the first non-empty tier
  among (1) open rows
  of the same topic and difficulty whose user is neither the requester nor a previous
  counterpart, (2) open rows of the same topic with the same exclusions, (3) open rows of
  the same topic and difficulty of any user but the requester, (4) open rows of the same
  topic of any user but the requester; and none when the four tiers are empty.
\<close>

theorem existingMatch_tiers:
  "existingMatch ch uid tpc diff s = spec_selectCandidate ch uid tpc diff s"
proof -
  let ?open = "filter (\<lambda>r. \<not> isArchived r \<and> \<not> matched r) (matchRecordTable s)"
  let ?ex = "spec_excludedUserIds uid s"
  have tier: "findFirst ch p s = pickRow ch (filter p' ?open)"
    if "\<And>r. p r = (p' r \<and> \<not> isArchived r \<and> \<not> matched r)" for p p'
  proof -
    have "filter p' ?open = filter p (matchRecordTable s)"
      using that by (auto intro: filter_cong)
    then show ?thesis
      by (simp add: findFirst_def)
  qed
  have t1: "findFirst ch (\<lambda>r. topic r = tpc \<and> difficulty r = diff \<and> \<not> matched r \<and> \<not> isArchived r
                          \<and> userId r \<notin> set (excludedUserIds uid s)) s
            = pickRow ch (filter (\<lambda>r. topic r = tpc \<and> difficulty r = diff \<and> userId r \<notin> ?ex) ?open)"
    by (rule tier) (auto simp: excludedUserIds_spec)
  have t2: "findFirst ch (\<lambda>r. topic r = tpc \<and> \<not> matched r \<and> \<not> isArchived r
                          \<and> userId r \<notin> set (excludedUserIds uid s)) s
            = pickRow ch (filter (\<lambda>r. topic r = tpc \<and> userId r \<notin> ?ex) ?open)"
    by (rule tier) (auto simp: excludedUserIds_spec)
  have t3: "findFirst ch (\<lambda>r. topic r = tpc \<and> difficulty r = diff \<and> \<not> matched r \<and> \<not> isArchived r
                          \<and> userId r \<noteq> uid) s
            = pickRow ch (filter (\<lambda>r. topic r = tpc \<and> difficulty r = diff \<and> userId r \<noteq> uid) ?open)"
    by (rule tier) auto
  have t4: "findFirst ch (\<lambda>r. topic r = tpc \<and> \<not> matched r \<and> \<not> isArchived r \<and> userId r \<noteq> uid) s
            = pickRow ch (filter (\<lambda>r. topic r = tpc \<and> userId r \<noteq> uid) ?open)"
    by (rule tier) auto
  show ?thesis
    unfolding existingMatch_def spec_selectCandidate_def spec_tiers_def Let_def
      firstOfTiers_Cons t1 t2 t3 t4
    by (simp split: option.splits)
qed

theorem existingMatch_tiers_witness:
  "spec_tiers ''bob'' ''arrays'' ''easy'' rematchExample = [[], [], [aliceAgain], [aliceAgain]]
   \<and> existingMatch firstRow ''bob'' ''arrays'' ''easy'' rematchExample = Some aliceAgain
   \<and> spec_tiers ''alice'' ''arrays'' ''easy'' rematchExample = [[], [], [], []]
   \<and> existingMatch firstRow ''alice'' ''arrays'' ''easy'' rematchExample = None"
proof -
  have b: "spec_tiers ''bob'' ''arrays'' ''easy'' rematchExample = [[], [], [aliceAgain], [aliceAgain]]"
    by (simp add: spec_tiers_def Let_def spec_excludedUserIds_def rematchExample_tables
        alicePending_def aliceWaiting_def bobPending_def aliceAgain_def)
  have a: "spec_tiers ''alice'' ''arrays'' ''easy'' rematchExample = [[], [], [], []]"
    by (simp add: spec_tiers_def Let_def spec_excludedUserIds_def rematchExample_tables
        alicePending_def aliceWaiting_def bobPending_def aliceAgain_def)
  from existingMatch_tiers [of firstRow "''bob''" "''arrays''" "''easy''" rematchExample]
    existingMatch_tiers [of firstRow "''alice''" "''arrays''" "''easy''" rematchExample]
  show ?thesis
    by (simp add: spec_selectCandidate_def a b)
qed

section \<open>Duplicate requests\<close>

text \<open>
  \<^bold>\<open>C9\<close> Duplicate-request fencing, as the code has it. When the row of the user that
  is neither pending nor archived, as the store returns it, carries another handle than
  the request, and the keys of the table are distinct, \<open>handleUserRequest\<close> sends one
  event to the old handle,
  whose name on the wire is \<open>duplicate socket\<close> (with a space), replaces the handle of
  that row and changes nothing else: every other field of the row and every other row stay,
  no row is added, no session, no delayed message, and the key counter stands. When the
  handle is the same, the state is returned as it was.
\<close>

theorem handleUserRequest_duplicate:
  assumes "findFirst ch (\<lambda>r. userId r = uid \<and> \<not> isPending r \<and> \<not> isArchived r) s = Some user"
    and "distinct (map recordId (matchRecordTable s))"
  shows "(socketId user \<noteq> sock \<longrightarrow>
            emitted (handleUserRequest ch room question uid tpc diff sock s) =
              emitted s @ [\<lparr>target = socketId user, event = ''duplicate socket'',
                             payload = Text msgDuplicate\<rparr>]
          \<and> matchRecordTable (handleUserRequest ch room question uid tpc diff sock s) =
              map (\<lambda>r. if r = user then r\<lparr>socketId := sock\<rparr> else r) (matchRecordTable s)
          \<and> sessionHistoryTable (handleUserRequest ch room question uid tpc diff sock s) = sessionHistoryTable s
          \<and> nextRecordId (handleUserRequest ch room question uid tpc diff sock s) = nextRecordId s
          \<and> delayed (handleUserRequest ch room question uid tpc diff sock s) = delayed s)
       \<and> (socketId user = sock \<longrightarrow> handleUserRequest ch room question uid tpc diff sock s = s)"
proof -
  from assms(1) have mem: "user \<in> set (matchRecordTable s)"
    by (rule findFirst_Some_D [THEN conjunct2])
  have step: "handleUserRequest ch room question uid tpc diff sock s =
      (if socketId user \<noteq> sock
       then update (recordId user) (\<lambda>r. r\<lparr>socketId := sock\<rparr>)
              (emit (socketId user) ''duplicate socket'' (Text msgDuplicate) s)
       else s)"
    unfolding handleUserRequest_def assms(1) by simp
  show ?thesis
    by (simp add: step map_update_distinct [OF assms(2) mem])
qed

theorem handleUserRequest_duplicate_witness:
  "findFirst firstRow (\<lambda>r. userId r = ''alice'' \<and> \<not> isPending r \<and> \<not> isArchived r) waitingExample = Some aliceWaiting
   \<and> distinct (map recordId (matchRecordTable waitingExample))
   \<and> socketId aliceWaiting \<noteq> ''sock-a2''
   \<and> emitted (handleUserRequest firstRow ''room-9'' (Some 7) ''alice'' ''arrays'' ''easy'' ''sock-a2'' waitingExample) =
       [\<lparr>target = ''sock-a'', event = ''duplicate socket'', payload = Text msgDuplicate\<rparr>]
   \<and> matchRecordTable (handleUserRequest firstRow ''room-9'' (Some 7) ''alice'' ''arrays'' ''easy'' ''sock-a2'' waitingExample) =
       [aliceWaiting\<lparr>socketId := ''sock-a2''\<rparr>]
   \<and> nextRecordId (handleUserRequest firstRow ''room-9'' (Some 7) ''alice'' ''arrays'' ''easy'' ''sock-a2'' waitingExample) = 2
   \<and> socketId aliceWaiting = ''sock-a''
   \<and> handleUserRequest firstRow ''room-9'' (Some 7) ''alice'' ''arrays'' ''easy'' ''sock-a'' waitingExample = waitingExample"
proof -
  have g: "findFirst firstRow (\<lambda>r. userId r = ''alice'' \<and> \<not> isPending r \<and> \<not> isArchived r) waitingExample = Some aliceWaiting"
    by (simp add: waitingExample_eq findFirst_firstRow aliceWaiting_def)
  have t: "matchRecordTable waitingExample = [aliceWaiting]" "emitted waitingExample = []"
    "nextRecordId waitingExample = 2" "socketId aliceWaiting = ''sock-a''"
    by (simp_all add: waitingExample_eq aliceWaiting_def)
  have d: "distinct (map recordId (matchRecordTable waitingExample))"
    by (simp add: t)
  from handleUserRequest_duplicate [OF g d, of "''sock-a2''" "''room-9''" "Some 7" "''arrays''" "''easy''"]
    handleUserRequest_duplicate [OF g d, of "''sock-a''" "''room-9''" "Some 7" "''arrays''" "''easy''"]
  show ?thesis
    using g d by (simp add: t)
qed

text \<open>
  The claim as worded names the event \<open>duplicate_socket\<close>. On alice's second request from
  another socket the one event sent is \<open>duplicate socket\<close>, and no event of the name
  \<open>duplicate_socket\<close> is sent.
\<close>

theorem handleUserRequest_duplicate_counterexample:
  "map event (emitted (handleUserRequest firstRow ''room-9'' (Some 7) ''alice'' ''arrays'' ''easy'' ''sock-a2'' waitingExample))
     = [''duplicate socket'']
   \<and> ''duplicate_socket'' \<notin> set (map event
        (emitted (handleUserRequest firstRow ''room-9'' (Some 7) ''alice'' ''arrays'' ''easy'' ''sock-a2'' waitingExample)))"
  by (simp add: waitingExample_eq handleUserRequest_def findFirst_firstRow aliceWaiting_def)

section \<open>Pairing\<close>

text \<open>
  \<^bold>\<open>C1\<close> The two rows of a pairing. When the requester has no outstanding row, a
  candidate is selected, a question \<open>q\<close> is found and the keys of the table are distinct,
  \<open>handleUserRequest\<close> replaces the candidate's row by a row \<open>em'\<close> and appends one row
  for the requester. The two rows refer to each other: \<open>em'\<close> names the requester as
  \<open>matchedUserId\<close> and the new row names the candidate's user, and both are matched,
  pending and not archived. The new row carries the new room and the question \<open>q\<close>, which
  are the room and the question announced to both handles in the two \<open>matched\<close> events.
  \<open>em'\<close> has the key, the user, the handle, the topic, the difficulty and the
  \<open>isConfirmed\<close> of the candidate's row, and the \<open>questionId\<close> that row had before (the
  confirm handler reads the question from whichever row of the pair has one). Nothing is
  stated about the room of \<open>em'\<close>. One confirm timeout is scheduled for each of the two
  rows, no other row changes, no session is written and the key counter advances by one.
\<close>

theorem handleUserRequest_pairing:
  assumes "findFirst ch (\<lambda>r. userId r = uid \<and> \<not> isPending r \<and> \<not> isArchived r) s = None"
    and "existingMatch ch uid tpc diff s = Some em"
    and "distinct (map recordId (matchRecordTable s))"
  shows "\<exists>em'.
         matchRecordTable (handleUserRequest ch room (Some q) uid tpc diff sock s) =
           map (\<lambda>r. if r = em then em' else r) (matchRecordTable s)
           @ [\<lparr>recordId = nextRecordId s, userId = uid, topic = tpc, difficulty = diff,
               socketId = sock, roomNumber = room, matched = True,
               matchedUserId = Some (userId em), isPending = True, isConfirmed = False,
               isArchived = False, questionId = Some q\<rparr>]
       \<and> recordId em' = recordId em \<and> userId em' = userId em \<and> socketId em' = socketId em
       \<and> topic em' = topic em \<and> difficulty em' = difficulty em
       \<and> matched em' \<and> matchedUserId em' = Some uid \<and> isPending em'
       \<and> isConfirmed em' = isConfirmed em \<and> \<not> isArchived em' \<and> questionId em' = questionId em
       \<and> em \<in> set (matchRecordTable s)
       \<and> emitted (handleUserRequest ch room (Some q) uid tpc diff sock s) =
           emitted s @ [\<lparr>target = sock, event = ''matched'', payload = MatchedObj (userId em) room q\<rparr>,
                        \<lparr>target = socketId em, event = ''matched'', payload = MatchedObj uid room q\<rparr>]
       \<and> delayed (handleUserRequest ch room (Some q) uid tpc diff sock s) =
           delayed s @ [\<lparr>delayedRecordId = nextRecordId s, delay = CONFIRM_DELAY_TIME\<rparr>,
                        \<lparr>delayedRecordId = recordId em, delay = CONFIRM_DELAY_TIME\<rparr>]
       \<and> sessionHistoryTable (handleUserRequest ch room (Some q) uid tpc diff sock s) = sessionHistoryTable s
       \<and> nextRecordId (handleUserRequest ch room (Some q) uid tpc diff sock s) = Suc (nextRecordId s)"
proof -
  from existingMatch_Some_D [OF assms(2)]
  have mem: "em \<in> set (matchRecordTable s)" and live: "\<not> isArchived em" by blast+
  have step: "handleUserRequest ch room (Some q) uid tpc diff sock s =
      inOrder
        [update (recordId em)
           (\<lambda>r. r\<lparr>matched := True, matchedUserId := Some uid, isPending := True\<rparr>),
         create ((newRecord uid tpc diff sock True room)
                   \<lparr>matchedUserId := Some (userId em), isPending := True,
                    questionId := Some q\<rparr>),
         emit sock ''matched'' (MatchedObj (userId em) room q),
         emit (socketId em) ''matched'' (MatchedObj uid room q),
         sendConfirmDelayedTimeoutMessage (nextRecordId s),
         sendConfirmDelayedTimeoutMessage (recordId em)] s"
    unfolding handleUserRequest_def assms(1,2) by simp
  have tbl: "map (\<lambda>r. if recordId r = recordId em
                       then r\<lparr>matched := True, matchedUserId := Some uid, isPending := True\<rparr> else r)
               (matchRecordTable s)
             = map (\<lambda>r. if r = em then em\<lparr>matched := True, matchedUserId := Some uid, isPending := True\<rparr> else r)
                 (matchRecordTable s)"
    unfolding map_update_distinct [OF assms(3) mem] by (rule map_cong) simp_all
  show ?thesis
    by (rule exI [of _ "em\<lparr>matched := True, matchedUserId := Some uid, isPending := True\<rparr>"])
      (simp add: step mem live tbl newRecord_def)
qed

theorem handleUserRequest_pairing_witness:
  "findFirst firstRow (\<lambda>r. userId r = ''bob'' \<and> \<not> isPending r \<and> \<not> isArchived r) waitingExample = None
   \<and> existingMatch firstRow ''bob'' ''arrays'' ''easy'' waitingExample = Some aliceWaiting
   \<and> distinct (map recordId (matchRecordTable waitingExample))
   \<and> last (matchRecordTable (handleUserRequest firstRow ''room-2'' (Some 7) ''bob'' ''arrays'' ''easy'' ''sock-b'' waitingExample))
       = bobPending
   \<and> map userId (matchRecordTable (handleUserRequest firstRow ''room-2'' (Some 7) ''bob'' ''arrays'' ''easy'' ''sock-b'' waitingExample))
       = [''alice'', ''bob'']
   \<and> map matchedUserId (matchRecordTable (handleUserRequest firstRow ''room-2'' (Some 7) ''bob'' ''arrays'' ''easy'' ''sock-b'' waitingExample))
       = [Some ''bob'', Some ''alice'']
   \<and> emitted (handleUserRequest firstRow ''room-2'' (Some 7) ''bob'' ''arrays'' ''easy'' ''sock-b'' waitingExample)
       = [\<lparr>target = ''sock-b'', event = ''matched'', payload = MatchedObj ''alice'' ''room-2'' 7\<rparr>,
          \<lparr>target = ''sock-a'', event = ''matched'', payload = MatchedObj ''bob'' ''room-2'' 7\<rparr>]
   \<and> delayed (handleUserRequest firstRow ''room-2'' (Some 7) ''bob'' ''arrays'' ''easy'' ''sock-b'' waitingExample)
       = [\<lparr>delayedRecordId = 2, delay = CONFIRM_DELAY_TIME\<rparr>,
          \<lparr>delayedRecordId = 1, delay = CONFIRM_DELAY_TIME\<rparr>]"
proof -
  have g: "findFirst firstRow (\<lambda>r. userId r = ''bob'' \<and> \<not> isPending r \<and> \<not> isArchived r) waitingExample = None"
    by (simp add: waitingExample_eq findFirst_firstRow aliceWaiting_def)
  have c: "existingMatch firstRow ''bob'' ''arrays'' ''easy'' waitingExample = Some aliceWaiting"
    by (simp add: waitingExample_eq existingMatch_def findFirst_firstRow excludedUserIds_def
        previousUserIds_def aliceWaiting_def)
  have t: "matchRecordTable waitingExample = [aliceWaiting]" "emitted waitingExample = []"
    "delayed waitingExample = []" "nextRecordId waitingExample = 2"
    by (simp_all add: waitingExample_eq)
  have a: "userId aliceWaiting = ''alice''" "socketId aliceWaiting = ''sock-a''"
    "recordId aliceWaiting = 1"
    by (simp_all add: aliceWaiting_def)
  have d: "distinct (map recordId (matchRecordTable waitingExample))"
    by (simp add: t)
  from handleUserRequest_pairing [OF g c d, of "''room-2''" 7 "''sock-b''"] g c d
  show ?thesis
    by (auto simp add: t a bobPending_def)
qed

text \<open>
  The claim as worded asks the two rows of a pair for one room and one question. After
  alice's request and bob's, the table holds the two rows of the pair, each naming the
  other's user, both matched and neither archived; their rooms differ and so do their
  questions (alice's row has none).
\<close>

theorem handleUserRequest_pairing_counterexample:
  "matchRecordTable pairedExample = [alicePending, bobPending]
   \<and> matched alicePending \<and> \<not> isArchived alicePending
   \<and> matched bobPending \<and> \<not> isArchived bobPending
   \<and> matchedUserId alicePending = Some (userId bobPending)
   \<and> matchedUserId bobPending = Some (userId alicePending)
   \<and> roomNumber alicePending = ''room-1'' \<and> roomNumber bobPending = ''room-2''
   \<and> questionId alicePending = None \<and> questionId bobPending = Some 7"
  by (simp add: pairedExample_eq) (simp add: alicePending_def bobPending_def aliceWaiting_def)

section \<open>One outstanding row for each user\<close>

lemma inOrder_preserves:
  "(\<And>f t. f \<in> set fs \<Longrightarrow> P t \<Longrightarrow> P (f t)) \<Longrightarrow> P s \<Longrightarrow> P (inOrder fs s)"
  by (induction fs arbitrary: s) simp_all

lemma outstanding_map_subseq:
  assumes "\<And>r. \<not> isPending (g r) \<and> \<not> isArchived (g r) \<Longrightarrow> \<not> isPending r \<and> \<not> isArchived r"
    and "\<And>r. userId (g r) = userId r"
  shows "set (map userId (filter (\<lambda>r. \<not> isPending r \<and> \<not> isArchived r) (map g xs)))
           \<subseteq> set (map userId (filter (\<lambda>r. \<not> isPending r \<and> \<not> isArchived r) xs))
         \<and> (distinct (map userId (filter (\<lambda>r. \<not> isPending r \<and> \<not> isArchived r) xs))
            \<longrightarrow> distinct (map userId (filter (\<lambda>r. \<not> isPending r \<and> \<not> isArchived r) (map g xs))))"
proof (induction xs)
  case Nil
  show ?case by simp
next
  case (Cons x xs)
  then show ?case
    using assms [of x] by (auto simp del: set_map) 
qed

lemma oneOutstanding_map:
  assumes "\<And>r. \<not> isPending (g r) \<Longrightarrow> \<not> isArchived (g r) \<Longrightarrow> \<not> isPending r \<and> \<not> isArchived r"
    and "\<And>r. userId (g r) = userId r"
    and "oneOutstanding s"
  shows "oneOutstanding (s\<lparr>matchRecordTable := map g (matchRecordTable s)\<rparr>)"
proof -
  have "distinct (map userId (filter (\<lambda>r. \<not> isPending r \<and> \<not> isArchived r) (matchRecordTable s)))
        \<longrightarrow> distinct (map userId (filter (\<lambda>r. \<not> isPending r \<and> \<not> isArchived r) (map g (matchRecordTable s))))"
    by (rule outstanding_map_subseq [THEN conjunct2]) (use assms(1,2) in blast)+
  with assms(3) show ?thesis
    unfolding oneOutstanding_def outstanding_def by simp
qed

lemma oneOutstanding_update:
  assumes "\<And>r. \<not> isPending (f r) \<Longrightarrow> \<not> isArchived (f r) \<Longrightarrow> \<not> isPending r \<and> \<not> isArchived r"
    and "\<And>r. userId (f r) = userId r"
    and "oneOutstanding s"
  shows "oneOutstanding (update rid f s)"
  unfolding update_def
proof (rule oneOutstanding_map [OF _ _ assms(3)])
  fix r
  show "userId (if recordId r = rid then f r else r) = userId r"
    by (simp add: assms(2))
  assume "\<not> isPending (if recordId r = rid then f r else r)"
    and "\<not> isArchived (if recordId r = rid then f r else r)"
  then show "\<not> isPending r \<and> \<not> isArchived r"
    by (cases "recordId r = rid") (simp_all add: assms(1))
qed

lemma oneOutstanding_updateMany:
  assumes "\<And>r. \<not> isPending (f r) \<Longrightarrow> \<not> isArchived (f r) \<Longrightarrow> \<not> isPending r \<and> \<not> isArchived r"
    and "\<And>r. userId (f r) = userId r"
    and "oneOutstanding s"
  shows "oneOutstanding (updateMany p f s)"
  unfolding updateMany_def
proof (rule oneOutstanding_map [OF _ _ assms(3)])
  fix r
  show "userId (if p r then f r else r) = userId r"
    by (simp add: assms(2))
  assume "\<not> isPending (if p r then f r else r)"
    and "\<not> isArchived (if p r then f r else r)"
  then show "\<not> isPending r \<and> \<not> isArchived r"
    by (cases "p r") (simp_all add: assms(1))
qed

lemma oneOutstanding_archive: "oneOutstanding s \<Longrightarrow> oneOutstanding (update rid archive s)"
  by (rule oneOutstanding_update) simp_all

lemma oneOutstanding_confirm:
  "oneOutstanding s \<Longrightarrow> oneOutstanding (update rid (\<lambda>r. r\<lparr>isConfirmed := True\<rparr>) s)"
  by (rule oneOutstanding_update) simp_all

lemma oneOutstanding_delete:
  assumes "oneOutstanding s"
  shows "oneOutstanding (delete rid s)"
proof -
  have "filter (\<lambda>r. \<not> isPending r \<and> \<not> isArchived r) (filter (\<lambda>r. recordId r \<noteq> rid) xs)
        = filter (\<lambda>r. recordId r \<noteq> rid) (filter (\<lambda>r. \<not> isPending r \<and> \<not> isArchived r) xs)" for xs
    by (induction xs) simp_all
  then have eq: "outstanding (delete rid s) = filter (\<lambda>r. recordId r \<noteq> rid) (outstanding s)"
    unfolding outstanding_def delete_fields .
  from assms show ?thesis
    unfolding oneOutstanding_def eq by (rule distinct_map_filter)
qed

lemma oneOutstanding_others [simp]:
  "oneOutstanding (emit h e p s) = oneOutstanding s"
  "oneOutstanding (createSession x s) = oneOutstanding s"
  "oneOutstanding (sendConfirmDelayedTimeoutMessage rid s) = oneOutstanding s"
  by (simp_all add: oneOutstanding_def outstanding_def)

lemma oneOutstanding_create_pending:
  "isPending d \<Longrightarrow> oneOutstanding (create d s) = oneOutstanding s"
  by (simp add: oneOutstanding_def outstanding_def)

lemma oneOutstanding_create_waiting:
  assumes "findFirst ch (\<lambda>r. userId r = userId d \<and> \<not> isPending r \<and> \<not> isArchived r) s = None"
    and "oneOutstanding s"
  shows "oneOutstanding (create d s)"
proof -
  from assms(1) have "userId d \<notin> set (map userId (outstanding s))"
    by (auto simp: findFirst_None_iff outstanding_def)
  with assms(2) show ?thesis
    by (simp add: oneOutstanding_def outstanding_def)
qed

lemma oneOutstanding_socket:
  "oneOutstanding s \<Longrightarrow> oneOutstanding (update rid (\<lambda>r. r\<lparr>socketId := sock\<rparr>) s)"
  by (rule oneOutstanding_update) simp_all

lemma oneOutstanding_pair:
  "oneOutstanding s \<Longrightarrow>
   oneOutstanding (update rid (\<lambda>r. r\<lparr>matched := True, matchedUserId := Some uid, isPending := True\<rparr>) s)"
  by (rule oneOutstanding_update) simp_all

lemmas oneOutstanding_steps =
  oneOutstanding_archive oneOutstanding_confirm oneOutstanding_socket oneOutstanding_pair
  oneOutstanding_delete

lemma oneOutstanding_handleUserRequest:
  assumes "oneOutstanding s"
  shows "oneOutstanding (handleUserRequest ch room question uid tpc diff sock s)"
proof (cases "findFirst ch (\<lambda>r. userId r = uid \<and> \<not> isPending r \<and> \<not> isArchived r) s")
  case (Some user)
  with assms show ?thesis
    by (simp add: handleUserRequest_def oneOutstanding_steps)
next
  case None
  note guard = this
  show ?thesis
  proof (cases "existingMatch ch uid tpc diff s")
    case None
    have "oneOutstanding (create (newRecord uid tpc diff sock False room) s)"
      by (rule oneOutstanding_create_waiting [where ch = ch]) (simp_all add: newRecord_def guard assms)
    with guard None show ?thesis
      by (simp add: handleUserRequest_def)
  next
    case (Some em)
    with guard assms show ?thesis
      by (cases question)
        (simp_all add: handleUserRequest_def oneOutstanding_steps oneOutstanding_create_pending)
  qed
qed

lemma oneOutstanding_handleMatchingConfirm:
  "oneOutstanding s \<Longrightarrow> oneOutstanding (handleMatchingConfirm ch uid s)"
  by (cases "findMatchedRecord ch uid s"; cases "findUserRecord ch uid s")
    (simp_all add: handleMatchingConfirm_def oneOutstanding_steps)

lemma oneOutstanding_handleMatchingDecline:
  "oneOutstanding s \<Longrightarrow> oneOutstanding (handleMatchingDecline ch uid s)"
  by (cases "findMatchedRecord ch uid s"; cases "findUserRecord ch uid s")
    (simp_all add: handleMatchingDecline_def oneOutstanding_steps)

lemma oneOutstanding_handleTimeout:
  "oneOutstanding s \<Longrightarrow> oneOutstanding (handleTimeout ch uid sock s)"
  by (simp add: handleTimeout_def oneOutstanding_steps split: option.splits)

lemma oneOutstanding_handleConfirmTimeout:
  "oneOutstanding s \<Longrightarrow> oneOutstanding (handleConfirmTimeout rid s)"
  by (simp add: handleConfirmTimeout_def oneOutstanding_steps split: option.splits)

lemma oneOutstanding_handleDisconnected:
  "oneOutstanding s \<Longrightarrow> oneOutstanding (handleDisconnected sock s)"
  unfolding handleDisconnected_def by (rule oneOutstanding_updateMany) simp_all

lemma oneOutstanding_handle: "oneOutstanding s \<Longrightarrow> oneOutstanding (handle ch req s)"
  by (cases req)
    (simp_all add: oneOutstanding_handleUserRequest oneOutstanding_handleMatchingConfirm
      oneOutstanding_handleMatchingDecline oneOutstanding_handleTimeout
      oneOutstanding_handleConfirmTimeout oneOutstanding_handleDisconnected)

lemma oneOutstanding_run: "oneOutstanding s \<Longrightarrow> oneOutstanding (run steps s)"
  unfolding run_def by (induction steps arbitrary: s) (simp_all add: oneOutstanding_handle)

lemma oneOutstanding_initialState: "oneOutstanding initialState"
  by (simp add: oneOutstanding_def outstanding_def initialState_def)

lemma secondRequestExample_step:
  "secondRequestExample =
     handleUserRequest firstRow ''room-3'' (Some 7) ''bob'' ''arrays'' ''easy'' ''sock-b'' pairedExample"
  by (simp add: secondRequestExample_def pairedExample_def run_inPlace)

lemma secondRequestExample_table:
  "matchRecordTable secondRequestExample = [alicePending, bobPending, bobAgain]"
  unfolding secondRequestExample_step
  by (simp add: pairedExample_eq handleUserRequest_def findFirst_firstRow existingMatch_def
      excludedUserIds_def previousUserIds_def newRecord_def alicePending_def aliceWaiting_def
      bobPending_def bobAgain_def)

text \<open>
  \<^bold>\<open>C2\<close> One outstanding row for each user. In every state that a run of the handlers
  reaches from the empty tables, no two rows that are neither pending nor archived belong
  to the same user. And in any state, when the requester has a row that is neither pending
  nor archived, \<open>handleUserRequest\<close> leaves the keys of the table as they are: it creates
  no row (and deletes none).
\<close>

theorem oneOutstanding_reachable:
  "oneOutstanding (run steps initialState) \<and>
   (uid \<in> set (map userId (outstanding s)) \<longrightarrow>
      map recordId (matchRecordTable (handleUserRequest ch room question uid tpc diff sock s))
        = map recordId (matchRecordTable s))"
proof
  show "oneOutstanding (run steps initialState)"
    by (rule oneOutstanding_run) (rule oneOutstanding_initialState)
next
  show "uid \<in> set (map userId (outstanding s)) \<longrightarrow>
      map recordId (matchRecordTable (handleUserRequest ch room question uid tpc diff sock s))
        = map recordId (matchRecordTable s)"
  proof
    assume "uid \<in> set (map userId (outstanding s))"
    then have "findFirst ch (\<lambda>r. userId r = uid \<and> \<not> isPending r \<and> \<not> isArchived r) s \<noteq> None"
      by (auto simp: findFirst_None_iff outstanding_def)
    then obtain user where
      "findFirst ch (\<lambda>r. userId r = uid \<and> \<not> isPending r \<and> \<not> isArchived r) s = Some user"
      by blast
    then have "handleUserRequest ch room question uid tpc diff sock s =
        (if socketId user \<noteq> sock
         then update (recordId user) (\<lambda>r. r\<lparr>socketId := sock\<rparr>)
                (emit (socketId user) ''duplicate socket'' (Text msgDuplicate) s)
         else s)"
      by (simp add: handleUserRequest_def)
    moreover have "map (recordId \<circ> (\<lambda>r. if recordId r = rid then r\<lparr>socketId := sock\<rparr> else r)) xs
        = map recordId xs" for rid xs
      by (rule map_cong) simp_all
    ultimately show "map recordId (matchRecordTable (handleUserRequest ch room question uid tpc diff sock s))
        = map recordId (matchRecordTable s)"
      by (cases "socketId user \<noteq> sock") simp_all
  qed
qed

theorem oneOutstanding_reachable_witness:
  "outstanding secondRequestExample = [bobAgain]
   \<and> oneOutstanding secondRequestExample
   \<and> ''alice'' \<in> set (map userId (outstanding waitingExample))
   \<and> map recordId (matchRecordTable
        (handleUserRequest firstRow ''room-9'' (Some 7) ''alice'' ''arrays'' ''easy'' ''sock-a2'' waitingExample))
       = [1]"
proof -
  have o: "outstanding secondRequestExample = [bobAgain]"
    by (simp add: outstanding_def secondRequestExample_table alicePending_def aliceWaiting_def
        bobPending_def bobAgain_def)
  have w: "''alice'' \<in> set (map userId (outstanding waitingExample))"
    "map recordId (matchRecordTable waitingExample) = [1]"
    by (simp_all add: outstanding_def waitingExample_eq aliceWaiting_def)
  from oneOutstanding_reachable
    [of "inPlace [UserRequest ''room-1'' (Some 7) ''alice'' ''arrays'' ''easy'' ''sock-a'',
          UserRequest ''room-2'' (Some 7) ''bob'' ''arrays'' ''easy'' ''sock-b'',
          UserRequest ''room-3'' (Some 7) ''bob'' ''arrays'' ''easy'' ''sock-b'']"
        "''alice''" waitingExample firstRow "''room-9''" "Some 7" "''arrays''" "''easy''" "''sock-a2''"]
  show ?thesis
    using o w by (simp add: secondRequestExample_def)
qed

text \<open>
  The claim as worded counts every row that is not archived. After alice's request and
  bob's, bob has a pending row that is not archived; his next request still creates a row,
  and the table then holds two rows of bob that are not archived.
\<close>

theorem oneOutstanding_reachable_counterexample:
  "map userId (matchRecordTable pairedExample) = [''alice'', ''bob'']
   \<and> map isArchived (matchRecordTable pairedExample) = [False, False]
   \<and> secondRequestExample =
       handleUserRequest firstRow ''room-3'' (Some 7) ''bob'' ''arrays'' ''easy'' ''sock-b'' pairedExample
   \<and> map userId (matchRecordTable secondRequestExample) = [''alice'', ''bob'', ''bob'']
   \<and> map isArchived (matchRecordTable secondRequestExample) = [False, False, False]
   \<and> map isPending (matchRecordTable secondRequestExample) = [True, True, False]"
proof -
  have "matchRecordTable pairedExample = [alicePending, bobPending]"
    by (simp add: pairedExample_eq)
  with secondRequestExample_step secondRequestExample_table show ?thesis
    by (simp add: alicePending_def aliceWaiting_def bobPending_def bobAgain_def)
qed

section \<open>Confirmation from both sides\<close>

lemma holdPair_sym: "holdPair s a b ra rb \<Longrightarrow> holdPair s b a rb ra"
  unfolding holdPair_def by auto

lemma bothConfirmed_sym: "bothConfirmed s ra rb a b s' \<Longrightarrow> bothConfirmed s rb ra b a s'"
  unfolding bothConfirmed_def by (auto simp: disj_commute insert_commute)

lemma filter_single_D: "filter p xs = [x] \<Longrightarrow> x \<in> set xs \<and> p x"
proof -
  assume "filter p xs = [x]"
  then have "x \<in> set (filter p xs)" by simp
  then show ?thesis by simp
qed

lemma holdPair_facts:
  assumes "holdPair s a b ra rb"
  shows "ra \<in> set (matchRecordTable s)" "rb \<in> set (matchRecordTable s)"
    "userId ra = a" "userId rb = b" "matchedUserId ra = Some b" "matchedUserId rb = Some a"
    "isPending ra" "isPending rb" "\<not> isArchived ra" "\<not> isArchived rb"
    "recordId ra \<noteq> recordId rb"
proof -
  from assms have fa: "filter (\<lambda>r. userId r = a \<and> isPending r \<and> \<not> isArchived r) (matchRecordTable s) = [ra]"
    and fb: "filter (\<lambda>r. userId r = b \<and> isPending r \<and> \<not> isArchived r) (matchRecordTable s) = [rb]"
    and ma: "filter (\<lambda>r. matchedUserId r = Some b \<and> isPending r \<and> \<not> isArchived r) (matchRecordTable s) = [ra]"
    and mb: "filter (\<lambda>r. matchedUserId r = Some a \<and> isPending r \<and> \<not> isArchived r) (matchRecordTable s) = [rb]"
    and ne: "a \<noteq> b"
    and d: "distinct (map recordId (matchRecordTable s))"
    by (simp_all add: holdPair_def)
  from filter_single_D [OF fa] show a: "ra \<in> set (matchRecordTable s)" "userId ra = a"
    "isPending ra" "\<not> isArchived ra" by simp_all
  from filter_single_D [OF fb] show b: "rb \<in> set (matchRecordTable s)" "userId rb = b"
    "isPending rb" "\<not> isArchived rb" by simp_all
  from filter_single_D [OF ma] show "matchedUserId ra = Some b" by simp
  from filter_single_D [OF mb] show "matchedUserId rb = Some a" by simp
  from a b ne have "ra \<noteq> rb" by auto
  with a(1) b(1) d show "recordId ra \<noteq> recordId rb"
    by (auto simp: distinct_map dest: inj_onD)
qed

lemma holdPair_lookups:
  assumes "holdPair s a b ra rb"
  shows "findUserRecord ch a s = Some ra" "findMatchedRecord ch a s = Some rb"
    "findUserRecord ch b s = Some rb" "findMatchedRecord ch b s = Some ra"
  using assms
  by (simp_all add: holdPair_def findUserRecord_def findMatchedRecord_def findFirst_def find_filter)

text \<open>The first confirm of a pair in which nobody has confirmed.\<close>

lemma confirm_first:
  assumes h: "holdPair s a b ra rb" and na: "\<not> isConfirmed ra" and nb: "\<not> isConfirmed rb"
  shows "handleMatchingConfirm ch a s =
           emit (socketId rb) ''other_accepted'' (Text msgOtherAccepted)
             (update (recordId ra) (\<lambda>r. r\<lparr>isConfirmed := True\<rparr>) s)"
    and "holdPair (handleMatchingConfirm ch a s) a b (ra\<lparr>isConfirmed := True\<rparr>) rb"
proof -
  note l = holdPair_lookups [OF h] and f = holdPair_facts [OF h]
  show step: "handleMatchingConfirm ch a s =
           emit (socketId rb) ''other_accepted'' (Text msgOtherAccepted)
             (update (recordId ra) (\<lambda>r. r\<lparr>isConfirmed := True\<rparr>) s)"
    using na nb by (simp add: handleMatchingConfirm_both [OF l(1) l(2)])
  let ?g = "\<lambda>r. if recordId r = recordId ra then r\<lparr>isConfirmed := True\<rparr> else r"
  have tbl: "matchRecordTable (handleMatchingConfirm ch a s) = map ?g (matchRecordTable s)"
    by (simp add: step)
  have keys: "map recordId (map ?g xs) = map recordId xs" for xs
    by (induction xs) simp_all
  have ga: "map ?g [ra] = [ra\<lparr>isConfirmed := True\<rparr>]" by simp
  have gb: "map ?g [rb] = [rb]" using f(11) by simp
  have fm: "filter p (map ?g (matchRecordTable s)) = map ?g (filter p (matchRecordTable s))"
    if "\<And>x. p (x\<lparr>isConfirmed := True\<rparr>) = p x" for p
    by (rule filter_map_same) (simp add: that)
  from h show "holdPair (handleMatchingConfirm ch a s) a b (ra\<lparr>isConfirmed := True\<rparr>) rb"
    unfolding holdPair_def tbl keys
    by (simp add: fm ga gb del: map_map list.map)
qed

text \<open>The confirm that completes a pair: the counterpart has confirmed, the caller has not.\<close>

lemma confirm_completes:
  assumes h: "holdPair s a b ra rb" and na: "\<not> isConfirmed ra" and cb: "isConfirmed rb"
  shows "matchRecordTable (handleMatchingConfirm ch a s) =
           map (\<lambda>r. if recordId r = recordId ra \<or> recordId r = recordId rb
                     then r\<lparr>isConfirmed := True, isArchived := True\<rparr> else r) (matchRecordTable s)"
    and "sessionHistoryTable (handleMatchingConfirm ch a s) =
           sessionHistoryTable s @
             [\<lparr>sessionRoomNumber = roomNumber rb,
               sessionQuestionId = nullish (questionId rb) (questionId ra),
               isOngoing = True, userOneId = a, userTwoId = b\<rparr>]"
    and "emitted (handleMatchingConfirm ch a s) =
           emitted s @ [\<lparr>target = socketId ra, event = ''matching_success'', payload = Text msgSuccess\<rparr>,
                        \<lparr>target = socketId rb, event = ''matching_success'', payload = Text msgSuccess\<rparr>]"
    and "delayed (handleMatchingConfirm ch a s) = delayed s"
    and "nextRecordId (handleMatchingConfirm ch a s) = nextRecordId s"
proof -
  note l = holdPair_lookups [OF h] and f = holdPair_facts [OF h]
  from h have d: "distinct (map recordId (matchRecordTable s))"
    by (simp add: holdPair_def)
  have step: "handleMatchingConfirm ch a s =
      inOrder
        [update (recordId ra) (\<lambda>r. r\<lparr>isConfirmed := True\<rparr>),
         update (recordId rb) archive,
         update (recordId ra) archive,
         createSession
           \<lparr>sessionRoomNumber = roomNumber rb,
            sessionQuestionId = nullish (questionId rb) (questionId ra),
            isOngoing = True, userOneId = userId ra, userTwoId = userId rb\<rparr>,
         emit (socketId ra) ''matching_success'' (Text msgSuccess),
         emit (socketId rb) ''matching_success'' (Text msgSuccess)] s"
    using na cb by (simp add: handleMatchingConfirm_both [OF l(1) l(2)])
  show "sessionHistoryTable (handleMatchingConfirm ch a s) =
           sessionHistoryTable s @
             [\<lparr>sessionRoomNumber = roomNumber rb,
               sessionQuestionId = nullish (questionId rb) (questionId ra),
               isOngoing = True, userOneId = a, userTwoId = b\<rparr>]"
    by (simp add: step f(3,4))
  show "emitted (handleMatchingConfirm ch a s) =
           emitted s @ [\<lparr>target = socketId ra, event = ''matching_success'', payload = Text msgSuccess\<rparr>,
                        \<lparr>target = socketId rb, event = ''matching_success'', payload = Text msgSuccess\<rparr>]"
    by (simp add: step)
  show "delayed (handleMatchingConfirm ch a s) = delayed s"
    by (simp add: step)
  show "nextRecordId (handleMatchingConfirm ch a s) = nextRecordId s"
    by (simp add: step)
  have "matchRecordTable (handleMatchingConfirm ch a s) =
      map ((\<lambda>r. if recordId r = recordId ra then archive r else r)
           \<circ> (\<lambda>r. if recordId r = recordId rb then archive r else r)
           \<circ> (\<lambda>r. if recordId r = recordId ra then r\<lparr>isConfirmed := True\<rparr> else r))
        (matchRecordTable s)"
    by (simp add: step)
  also have "\<dots> = map (\<lambda>r. if recordId r = recordId ra \<or> recordId r = recordId rb
                     then r\<lparr>isConfirmed := True, isArchived := True\<rparr> else r) (matchRecordTable s)"
  proof (rule map_cong [OF refl])
    fix r assume r: "r \<in> set (matchRecordTable s)"
    show "((\<lambda>r. if recordId r = recordId ra then archive r else r)
           \<circ> (\<lambda>r. if recordId r = recordId rb then archive r else r)
           \<circ> (\<lambda>r. if recordId r = recordId ra then r\<lparr>isConfirmed := True\<rparr> else r)) r
          = (if recordId r = recordId ra \<or> recordId r = recordId rb
             then r\<lparr>isConfirmed := True, isArchived := True\<rparr> else r)"
    proof (cases "recordId r = recordId rb")
      case True
      with same_key_same_row [OF d r f(2)] have "r = rb" by simp
      with cb f(11) show ?thesis by (simp add: archive_def)
    next
      case False
      then show ?thesis by (simp add: archive_def)
    qed
  qed
  finally show "matchRecordTable (handleMatchingConfirm ch a s) =
           map (\<lambda>r. if recordId r = recordId ra \<or> recordId r = recordId rb
                     then r\<lparr>isConfirmed := True, isArchived := True\<rparr> else r) (matchRecordTable s)" .
qed

text \<open>Once both rows are archived, a confirm of either user finds nothing and does nothing.\<close>

lemma confirm_after_completion:
  assumes h: "holdPair s a b ra rb"
    and t: "matchRecordTable s' =
           map (\<lambda>r. if recordId r = recordId ra \<or> recordId r = recordId rb
                     then r\<lparr>isConfirmed := True, isArchived := True\<rparr> else r) (matchRecordTable s)"
  shows "handleMatchingConfirm ch a s' = s'"
proof -
  let ?G = "\<lambda>r. if recordId r = recordId ra \<or> recordId r = recordId rb
                 then r\<lparr>isConfirmed := True, isArchived := True\<rparr> else r"
  have none: "\<forall>y \<in> set (map ?G (matchRecordTable s)). \<not> p y"
    if single: "filter p (matchRecordTable s) = [x]" and x: "x = ra \<or> x = rb"
      and arch: "\<And>r. p r \<Longrightarrow> \<not> isArchived r" for p x
  proof -
    have "\<not> p (?G r)" if r: "r \<in> set (matchRecordTable s)" for r
    proof (cases "recordId r = recordId ra \<or> recordId r = recordId rb")
      case True
      then show ?thesis using arch [of "?G r"] by auto
    next
      case False
      show ?thesis
      proof
        assume "p (?G r)"
        with False have "p r" by simp
        with r have "r \<in> set (filter p (matchRecordTable s))" by simp
        with single x False show False by auto
      qed
    qed
    then show ?thesis
      unfolding set_map by blast
  qed
  from h have fa: "filter (\<lambda>r. userId r = a \<and> isPending r \<and> \<not> isArchived r) (matchRecordTable s) = [ra]"
    and mb: "filter (\<lambda>r. matchedUserId r = Some a \<and> isPending r \<and> \<not> isArchived r) (matchRecordTable s) = [rb]"
    by (simp_all add: holdPair_def)
  have "findUserRecord ch a s' = None"
    unfolding findUserRecord_def findFirst_None_iff t
    by (rule none [OF fa]) simp_all
  moreover have "findMatchedRecord ch a s' = None"
    unfolding findMatchedRecord_def findFirst_None_iff t
    by (rule none [OF mb]) simp_all
  ultimately show ?thesis
    by (simp add: handleMatchingConfirm_def)
qed

lemma confirm_own_confirmed:
  assumes h: "holdPair s a b ra rb" and ca: "isConfirmed ra"
  shows "handleMatchingConfirm ch a s = s"
  using ca holdPair_lookups [OF h]
  by (simp add: handleMatchingConfirm_both [of ch a s ra rb])

lemma bothConfirmedI:
  assumes "matchRecordTable s' =
       map (\<lambda>r. if recordId r = recordId ra \<or> recordId r = recordId rb
                 then r\<lparr>isConfirmed := True, isArchived := True\<rparr> else r) (matchRecordTable s)"
    and "sessionHistoryTable s' = sessionHistoryTable s @ [x]"
    and "isOngoing x"
    and "userOneId x = a \<and> userTwoId x = b \<or> userOneId x = b \<and> userTwoId x = a"
    and "emitted s' = emitted s @ ns"
    and "map target (filter (\<lambda>n. event n = ''matching_success'') ns)
           \<in> {[socketId ra, socketId rb], [socketId rb, socketId ra]}"
    and "delayed s' = delayed s"
    and "nextRecordId s' = nextRecordId s"
  shows "bothConfirmed s ra rb a b s'"
  unfolding bothConfirmed_def using assms by simp

lemma confirm_then_confirm:
  assumes h: "holdPair s a b ra rb" and n: "\<not> (isConfirmed ra \<and> isConfirmed rb)"
  shows "bothConfirmed s ra rb a b (handleMatchingConfirm ch' b (handleMatchingConfirm ch a s))"
proof -
  note f = holdPair_facts [OF h]
  consider (neither) "\<not> isConfirmed ra" "\<not> isConfirmed rb"
    | (first) "isConfirmed ra" "\<not> isConfirmed rb"
    | (second) "\<not> isConfirmed ra" "isConfirmed rb"
    using n by blast
  then show ?thesis
  proof cases
    case neither
    let ?s1 = "handleMatchingConfirm ch a s"
    let ?ra = "ra\<lparr>isConfirmed := True\<rparr>"
    note s1 = confirm_first [OF h neither]
    have h1: "holdPair ?s1 b a rb ?ra"
      by (rule holdPair_sym) (rule s1(2))
    have ca: "isConfirmed ?ra" by simp
    note c = confirm_completes [OF h1 neither(2) ca]
    show ?thesis
    proof (rule bothConfirmedI)
      show "matchRecordTable (handleMatchingConfirm ch' b ?s1) =
          map (\<lambda>r. if recordId r = recordId ra \<or> recordId r = recordId rb
                    then r\<lparr>isConfirmed := True, isArchived := True\<rparr> else r) (matchRecordTable s)"
        unfolding c(1) unfolding s1(1) by (simp add: comp_def)
      show "sessionHistoryTable (handleMatchingConfirm ch' b ?s1) = sessionHistoryTable s @
          [\<lparr>sessionRoomNumber = roomNumber ?ra,
            sessionQuestionId = nullish (questionId ?ra) (questionId rb),
            isOngoing = True, userOneId = b, userTwoId = a\<rparr>]"
        unfolding c(2) unfolding s1(1) by simp
      show "emitted (handleMatchingConfirm ch' b ?s1) = emitted s @
          [\<lparr>target = socketId rb, event = ''other_accepted'', payload = Text msgOtherAccepted\<rparr>,
           \<lparr>target = socketId rb, event = ''matching_success'', payload = Text msgSuccess\<rparr>,
           \<lparr>target = socketId ra, event = ''matching_success'', payload = Text msgSuccess\<rparr>]"
        unfolding c(3) unfolding s1(1) by simp
      show "delayed (handleMatchingConfirm ch' b ?s1) = delayed s"
        unfolding c(4) unfolding s1(1) by simp
      show "nextRecordId (handleMatchingConfirm ch' b ?s1) = nextRecordId s"
        unfolding c(5) unfolding s1(1) by simp
    qed simp_all
  next
    case first
    have s1: "handleMatchingConfirm ch a s = s"
      by (rule confirm_own_confirmed [OF h first(1)])
    note c = confirm_completes [OF holdPair_sym [OF h] first(2) first(1)]
    show ?thesis
      unfolding s1
    proof (rule bothConfirmedI)
      show "matchRecordTable (handleMatchingConfirm ch' b s) =
          map (\<lambda>r. if recordId r = recordId ra \<or> recordId r = recordId rb
                    then r\<lparr>isConfirmed := True, isArchived := True\<rparr> else r) (matchRecordTable s)"
        unfolding c(1) by (simp add: disj_commute)
    qed (simp add: c)+
  next
    case second
    note c = confirm_completes [OF h second]
    have t: "matchRecordTable (handleMatchingConfirm ch a s) =
          map (\<lambda>r. if recordId r = recordId rb \<or> recordId r = recordId ra
                    then r\<lparr>isConfirmed := True, isArchived := True\<rparr> else r) (matchRecordTable s)"
      unfolding c(1) by (simp add: disj_commute)
    have s2: "handleMatchingConfirm ch' b (handleMatchingConfirm ch a s) = handleMatchingConfirm ch a s"
      by (rule confirm_after_completion [OF holdPair_sym [OF h] t])
    show ?thesis
      unfolding s2 by (rule bothConfirmedI) (simp add: c)+
  qed
qed

lemma staleConfirmExample_tables:
  "matchRecordTable staleConfirmExample = [carolExpired, bobExpired, bobStale, aliceStale]"
  "sessionHistoryTable staleConfirmExample = []"
  by (simp_all add: staleConfirmExample_def run_inPlace initialState_def handleUserRequest_def
      handleMatchingConfirm_def handleConfirmTimeout_def findUnique_def
      findUserRecord_def findMatchedRecord_def findFirst_firstRow
      existingMatch_def excludedUserIds_def previousUserIds_def newRecord_def
      carolExpired_def bobExpired_def bobStale_def aliceStale_def archive_def)

text \<open>
  \<^bold>\<open>C4\<close> Confirmation from both sides, in either order. Let \<open>a\<close> and \<open>b\<close> hold the pending
  rows \<open>ra\<close> and \<open>rb\<close> that refer to each other, and let at least one of the two rows be
  unconfirmed. Then, whatever the store returns at either call, \<open>handleMatchingConfirm\<close>
  for \<open>a\<close> and then for \<open>b\<close>, and likewise for \<open>b\<close> and then for \<open>a\<close>, ends in a state where both rows are confirmed and archived and
  no other row has changed, exactly one session of the two users has been appended, and
  exactly two \<open>matching_success\<close> events have been sent, one to the handle of each row.
  (The two orders agree on the table; the session they write names the user who confirmed
  last as user one and takes its room from the other user's row.)
\<close>

theorem handleMatchingConfirm_commutes:
  assumes "holdPair s a b ra rb" and "\<not> (isConfirmed ra \<and> isConfirmed rb)"
  shows "bothConfirmed s ra rb a b (handleMatchingConfirm ch' b (handleMatchingConfirm ch a s))
       \<and> bothConfirmed s ra rb a b (handleMatchingConfirm ch' a (handleMatchingConfirm ch b s))"
proof
  show "bothConfirmed s ra rb a b (handleMatchingConfirm ch' b (handleMatchingConfirm ch a s))"
    using assms by (rule confirm_then_confirm)
  from assms(2) have "\<not> (isConfirmed rb \<and> isConfirmed ra)" by blast
  with holdPair_sym [OF assms(1)]
  have "bothConfirmed s rb ra b a (handleMatchingConfirm ch' a (handleMatchingConfirm ch b s))"
    by (rule confirm_then_confirm)
  then show "bothConfirmed s ra rb a b (handleMatchingConfirm ch' a (handleMatchingConfirm ch b s))"
    by (rule bothConfirmed_sym)
qed

lemma pairedExample_holdPair: "holdPair pairedExample ''alice'' ''bob'' alicePending bobPending"
  by (simp add: holdPair_def pairedExample_eq alicePending_def aliceWaiting_def bobPending_def)

theorem handleMatchingConfirm_commutes_witness:
  "holdPair pairedExample ''alice'' ''bob'' alicePending bobPending
   \<and> \<not> (isConfirmed alicePending \<and> isConfirmed bobPending)
   \<and> bothConfirmed pairedExample alicePending bobPending ''alice'' ''bob''
       (handleMatchingConfirm firstRow ''bob'' (handleMatchingConfirm firstRow ''alice'' pairedExample))
   \<and> bothConfirmed pairedExample alicePending bobPending ''alice'' ''bob''
       (handleMatchingConfirm firstRow ''alice'' (handleMatchingConfirm firstRow ''bob'' pairedExample))
   \<and> map isArchived (matchRecordTable
         (handleMatchingConfirm firstRow ''bob'' (handleMatchingConfirm firstRow ''alice'' pairedExample))) = [True, True]
   \<and> length (sessionHistoryTable
         (handleMatchingConfirm firstRow ''alice'' (handleMatchingConfirm firstRow ''bob'' pairedExample))) = 1"
proof -
  have n: "\<not> (isConfirmed alicePending \<and> isConfirmed bobPending)"
    by (simp add: alicePending_def aliceWaiting_def)
  have t: "matchRecordTable pairedExample = [alicePending, bobPending]"
    "sessionHistoryTable pairedExample = []"
    by (simp_all add: pairedExample_eq)
  note c = handleMatchingConfirm_commutes
    [OF pairedExample_holdPair n, where ch = firstRow and ch' = firstRow]
  from c have "map isArchived (matchRecordTable
         (handleMatchingConfirm firstRow ''bob'' (handleMatchingConfirm firstRow ''alice'' pairedExample))) = [True, True]"
    by (simp add: bothConfirmed_def t)
  moreover from c have "butlast (sessionHistoryTable
         (handleMatchingConfirm firstRow ''alice'' (handleMatchingConfirm firstRow ''bob'' pairedExample))) = []"
    and "sessionHistoryTable
         (handleMatchingConfirm firstRow ''alice'' (handleMatchingConfirm firstRow ''bob'' pairedExample)) \<noteq> []"
    by (simp_all add: bothConfirmed_def t)
  then have "length (sessionHistoryTable
         (handleMatchingConfirm firstRow ''alice'' (handleMatchingConfirm firstRow ''bob'' pairedExample))) = 1"
    by (cases "sessionHistoryTable
         (handleMatchingConfirm firstRow ''alice'' (handleMatchingConfirm firstRow ''bob'' pairedExample))" rule: rev_cases)
      simp_all
  ultimately show ?thesis
    using c pairedExample_holdPair n by simp
qed

text \<open>
  The claim as worded starts from any state in which the two users hold pending rows that
  refer to each other. In the state reached by the run \<open>staleConfirmExample\<close>, alice and
  bob hold such rows and both rows are confirmed. A confirm of alice and then of bob, or of
  bob and then of alice, returns that state: no row is archived, no session is written and
  no event is sent.
\<close>

theorem handleMatchingConfirm_commutes_counterexample:
  "holdPair staleConfirmExample ''alice'' ''bob'' aliceStale bobStale
   \<and> isConfirmed aliceStale \<and> isConfirmed bobStale
   \<and> handleMatchingConfirm firstRow ''bob'' (handleMatchingConfirm firstRow ''alice'' staleConfirmExample)
       = staleConfirmExample
   \<and> handleMatchingConfirm firstRow ''alice'' (handleMatchingConfirm firstRow ''bob'' staleConfirmExample)
       = staleConfirmExample
   \<and> map isArchived (matchRecordTable staleConfirmExample) = [True, True, False, False]
   \<and> sessionHistoryTable staleConfirmExample = []"
proof -
  have h: "holdPair staleConfirmExample ''alice'' ''bob'' aliceStale bobStale"
    by (simp add: holdPair_def staleConfirmExample_tables
        carolExpired_def bobExpired_def bobStale_def aliceStale_def)
  have c: "isConfirmed aliceStale" "isConfirmed bobStale"
    by (simp_all add: aliceStale_def bobStale_def)
  have a: "handleMatchingConfirm firstRow ''alice'' staleConfirmExample = staleConfirmExample"
    by (rule confirm_own_confirmed [OF h c(1)])
  have b: "handleMatchingConfirm firstRow ''bob'' staleConfirmExample = staleConfirmExample"
    by (rule confirm_own_confirmed [OF holdPair_sym [OF h] c(2)])
  have "map isArchived (matchRecordTable staleConfirmExample) = [True, True, False, False]"
    by (simp add: staleConfirmExample_tables
        carolExpired_def bobExpired_def bobStale_def aliceStale_def)
  with h c show ?thesis
    by (simp add: a b staleConfirmExample_tables)
qed

section \<open>Keys stay distinct\<close>

lemma keysOk_map:
  assumes "\<And>r. recordId (g r) = recordId r" and "keysOk s"
  shows "keysOk (s\<lparr>matchRecordTable := map g (matchRecordTable s)\<rparr>)"
proof -
  have "map recordId (map g xs) = map recordId xs" for xs
    by (induction xs) (simp_all add: assms(1))
  with assms show ?thesis
    by (simp add: keysOk_def del: map_map)
qed

lemma keysOk_update:
  "(\<And>r. recordId (f r) = recordId r) \<Longrightarrow> keysOk s \<Longrightarrow> keysOk (update rid f s)"
  unfolding update_def by (rule keysOk_map) simp_all

lemma keysOk_updateMany:
  "(\<And>r. recordId (f r) = recordId r) \<Longrightarrow> keysOk s \<Longrightarrow> keysOk (updateMany p f s)"
  unfolding updateMany_def by (rule keysOk_map) simp_all

lemma keysOk_archive: "keysOk s \<Longrightarrow> keysOk (update rid archive s)"
  by (rule keysOk_update) simp_all

lemma keysOk_confirm: "keysOk s \<Longrightarrow> keysOk (update rid (\<lambda>r. r\<lparr>isConfirmed := True\<rparr>) s)"
  by (rule keysOk_update) simp_all

lemma keysOk_socket: "keysOk s \<Longrightarrow> keysOk (update rid (\<lambda>r. r\<lparr>socketId := sock\<rparr>) s)"
  by (rule keysOk_update) simp_all

lemma keysOk_pair:
  "keysOk s \<Longrightarrow>
   keysOk (update rid (\<lambda>r. r\<lparr>matched := True, matchedUserId := Some uid, isPending := True\<rparr>) s)"
  by (rule keysOk_update) simp_all

lemma keysOk_delete: "keysOk s \<Longrightarrow> keysOk (delete rid s)"
  by (simp add: keysOk_def distinct_map_filter)

lemma keysOk_create: "keysOk s \<Longrightarrow> keysOk (create d s)"
  by (auto simp: keysOk_def less_Suc_eq)

lemma keysOk_others [simp]:
  "keysOk (emit h e p s) = keysOk s"
  "keysOk (createSession x s) = keysOk s"
  "keysOk (sendConfirmDelayedTimeoutMessage rid s) = keysOk s"
  by (simp_all add: keysOk_def)

lemmas keysOk_steps =
  keysOk_archive keysOk_confirm keysOk_socket keysOk_pair keysOk_delete keysOk_create

lemma keysOk_handle: "keysOk s \<Longrightarrow> keysOk (handle ch req s)"
proof (cases req)
  case (UserRequest room question uid tpc diff sock)
  assume "keysOk s"
  then have "keysOk (handleUserRequest ch room question uid tpc diff sock s)"
    by (simp add: handleUserRequest_def keysOk_steps split: option.splits)
  with UserRequest show ?thesis by simp
next
  case (MatchingConfirm uid)
  assume "keysOk s"
  then have "keysOk (handleMatchingConfirm ch uid s)"
    by (cases "findMatchedRecord ch uid s"; cases "findUserRecord ch uid s")
      (simp_all add: handleMatchingConfirm_def keysOk_steps)
  with MatchingConfirm show ?thesis by simp
next
  case (MatchingDecline uid)
  assume "keysOk s"
  then have "keysOk (handleMatchingDecline ch uid s)"
    by (cases "findMatchedRecord ch uid s"; cases "findUserRecord ch uid s")
      (simp_all add: handleMatchingDecline_def keysOk_steps)
  with MatchingDecline show ?thesis by simp
next
  case (Timeout uid sock)
  assume "keysOk s"
  then have "keysOk (handleTimeout ch uid sock s)"
    by (simp add: handleTimeout_def keysOk_steps split: option.splits)
  with Timeout show ?thesis by simp
next
  case (ConfirmTimeout rid)
  assume "keysOk s"
  then have "keysOk (handleConfirmTimeout rid s)"
    by (simp add: handleConfirmTimeout_def keysOk_steps split: option.splits)
  with ConfirmTimeout show ?thesis by simp
next
  case (Disconnected sock)
  assume "keysOk s"
  then have "keysOk (handleDisconnected sock s)"
    unfolding handleDisconnected_def by (rule keysOk_updateMany [rotated]) simp
  with Disconnected show ?thesis by simp
qed

lemma keysOk_run: "keysOk s \<Longrightarrow> keysOk (run steps s)"
  unfolding run_def by (induction steps arbitrary: s) (simp_all add: keysOk_handle)

lemma keysOk_initialState: "keysOk initialState"
  by (simp add: keysOk_def initialState_def)

section \<open>Archived rows stay as they are\<close>

lemma stays_update:
  "recordId r \<noteq> rid \<Longrightarrow> r \<in> set (matchRecordTable s) \<Longrightarrow> r \<in> set (matchRecordTable (update rid f s))"
  by (force simp: image_iff)

lemma stays_delete:
  "recordId r \<noteq> rid \<Longrightarrow> r \<in> set (matchRecordTable s) \<Longrightarrow> r \<in> set (matchRecordTable (delete rid s))"
  by simp

lemma stays_archive_all:
  "isArchived r \<Longrightarrow> r \<in> set (matchRecordTable s) \<Longrightarrow>
   r \<in> set (matchRecordTable (updateMany p archive s))"
  by (force simp: image_iff archive_def)

lemma live_other_key:
  assumes "distinct (map recordId (matchRecordTable s))"
    and "r \<in> set (matchRecordTable s)" and "isArchived r"
    and "t \<in> set (matchRecordTable s)" and "\<not> isArchived t"
  shows "recordId r \<noteq> recordId t"
  using same_key_same_row [OF assms(1,2,4)] assms(3,5) by auto

lemma found_other_key:
  assumes "distinct (map recordId (matchRecordTable s))"
    and "r \<in> set (matchRecordTable s)" and "isArchived r"
    and "findFirst ch p s = Some t" and "\<And>x. p x \<Longrightarrow> \<not> isArchived x"
  shows "recordId r \<noteq> recordId t"
proof -
  from assms(4) have "p t \<and> t \<in> set (matchRecordTable s)"
    by (rule findFirst_Some_D)
  with assms(5) have "t \<in> set (matchRecordTable s)" "\<not> isArchived t" by auto
  with assms(1-3) show ?thesis by (rule live_other_key)
qed

lemma stays_handleUserRequest:
  assumes d: "distinct (map recordId (matchRecordTable s))"
    and r: "r \<in> set (matchRecordTable s)" and a: "isArchived r"
  shows "r \<in> set (matchRecordTable (handleUserRequest ch room question uid tpc diff sock s))"
proof (cases "findFirst ch (\<lambda>r. userId r = uid \<and> \<not> isPending r \<and> \<not> isArchived r) s")
  case (Some user)
  from found_other_key [OF d r a Some] have "recordId r \<noteq> recordId user" by simp
  with Some r show ?thesis
    by (simp add: handleUserRequest_def stays_update del: update_fields)
next
  case None
  note guard = this
  show ?thesis
  proof (cases "existingMatch ch uid tpc diff s")
    case None
    with guard r show ?thesis by (simp add: handleUserRequest_def)
  next
    case (Some em)
    from existingMatch_Some_D [OF Some] have "em \<in> set (matchRecordTable s)" "\<not> isArchived em"
      by blast+
    with d r a have "recordId r \<noteq> recordId em" by (rule live_other_key)
    with guard Some r show ?thesis
      by (cases question) (simp_all add: handleUserRequest_def image_iff)
  qed
qed

lemma stays_inOrder:
  "(\<And>f t. f \<in> set fs \<Longrightarrow> r \<in> set (matchRecordTable t) \<Longrightarrow> r \<in> set (matchRecordTable (f t)))
   \<Longrightarrow> r \<in> set (matchRecordTable s) \<Longrightarrow> r \<in> set (matchRecordTable (inOrder fs s))"
  by (rule inOrder_preserves [where P = "\<lambda>t. r \<in> set (matchRecordTable t)"])

lemma stays_pair_handlers:
  assumes d: "distinct (map recordId (matchRecordTable s))"
    and r: "r \<in> set (matchRecordTable s)" and a: "isArchived r"
  shows "r \<in> set (matchRecordTable (handleMatchingConfirm ch uid s))"
    and "r \<in> set (matchRecordTable (handleMatchingDecline ch uid s))"
proof -
  have m: "recordId r \<noteq> recordId x" if "findMatchedRecord ch uid s = Some x" for x
    using that unfolding findMatchedRecord_def by (rule found_other_key [OF d r a]) simp
  have u: "recordId r \<noteq> recordId x" if "findUserRecord ch uid s = Some x" for x
    using that unfolding findUserRecord_def by (rule found_other_key [OF d r a]) simp
  show "r \<in> set (matchRecordTable (handleMatchingConfirm ch uid s))"
    unfolding handleMatchingConfirm_def
    by (cases "findMatchedRecord ch uid s"; cases "findUserRecord ch uid s")
      (auto simp del: update_fields inOrder_Cons inOrder_Nil inOrder_append
        intro!: stays_inOrder r dest!: m u intro: stays_update)
  show "r \<in> set (matchRecordTable (handleMatchingDecline ch uid s))"
    unfolding handleMatchingDecline_def
    by (cases "findMatchedRecord ch uid s"; cases "findUserRecord ch uid s")
      (auto simp del: update_fields inOrder_Cons inOrder_Nil inOrder_append
        intro!: stays_inOrder r dest!: m u intro: stays_update)
qed

lemma stays_handleTimeout:
  assumes d: "distinct (map recordId (matchRecordTable s))"
    and r: "r \<in> set (matchRecordTable s)" and a: "isArchived r"
  shows "r \<in> set (matchRecordTable (handleTimeout ch uid sock s))"
proof (cases "findFirst ch (\<lambda>r. userId r = uid \<and> \<not> isPending r \<and> \<not> isArchived r \<and> socketId r = sock) s")
  case None
  with r show ?thesis by (simp add: handleTimeout_def)
next
  case (Some result)
  from found_other_key [OF d r a Some] have "recordId r \<noteq> recordId result" by simp
  with Some r show ?thesis
    by (simp add: handleTimeout_def image_iff)
qed

lemma stays_handleConfirmTimeout:
  assumes d: "distinct (map recordId (matchRecordTable s))"
    and r: "r \<in> set (matchRecordTable s)" and a: "isArchived r"
  shows "r \<in> set (matchRecordTable (handleConfirmTimeout rid s))"
proof (cases "findUnique rid s")
  case None
  with r show ?thesis by (simp add: handleConfirmTimeout_def)
next
  case (Some result)
  show ?thesis
  proof (cases "isArchived result")
    case True
    with Some r show ?thesis by (simp add: handleConfirmTimeout_def)
  next
    case False
    from Some have "recordId result = rid \<and> result \<in> set (matchRecordTable s)"
      unfolding findUnique_def by (rule find_Some_D)
    then have res: "recordId result = rid" "result \<in> set (matchRecordTable s)"
      by simp_all
    from d r a res(2) False have "recordId r \<noteq> recordId result"
      by (rule live_other_key)
    with res Some False r show ?thesis
      by (simp add: handleConfirmTimeout_def image_iff)
  qed
qed

lemma stays_handle:
  assumes "keysOk s" and "r \<in> set (matchRecordTable s)" and "isArchived r"
  shows "r \<in> set (matchRecordTable (handle ch req s))"
proof -
  from assms(1) have d: "distinct (map recordId (matchRecordTable s))"
    by (simp add: keysOk_def)
  note rest = assms(2,3)
  show ?thesis
  proof (cases req)
    case (UserRequest room question uid tpc diff sock)
    with stays_handleUserRequest [OF d rest] show ?thesis by simp
  next
    case (MatchingConfirm uid)
    with stays_pair_handlers(1) [OF d rest] show ?thesis by simp
  next
    case (MatchingDecline uid)
    with stays_pair_handlers(2) [OF d rest] show ?thesis by simp
  next
    case (Timeout uid sock)
    with stays_handleTimeout [OF d rest] show ?thesis by simp
  next
    case (ConfirmTimeout rid)
    with stays_handleConfirmTimeout [OF d rest] show ?thesis by simp
  next
    case (Disconnected sock)
    with stays_archive_all [OF assms(3,2)] show ?thesis
      by (simp add: handleDisconnected_def del: updateMany_fields)
  qed
qed

lemma stays_run:
  "keysOk s \<Longrightarrow> r \<in> set (matchRecordTable s) \<Longrightarrow> isArchived r \<Longrightarrow>
   r \<in> set (matchRecordTable (run steps s))"
  unfolding run_def
  by (induction steps arbitrary: s) (simp_all add: stays_handle keysOk_handle)

section \<open>Handlers do not look at archived rows\<close>

lemma findFirst_liveRows:
  assumes "\<And>x. p x \<Longrightarrow> \<not> isArchived x"
  shows "findFirst ch p s = pickRow ch (filter p (liveRows s))"
proof -
  have "filter p xs = filter p (filter (\<lambda>r. \<not> isArchived r) xs)" for xs
    by (induction xs) (auto dest: assms)
  then show ?thesis by (simp add: findFirst_def liveRows_def)
qed

lemma sameLive_findFirst:
  "sameLive s t \<Longrightarrow> (\<And>x. p x \<Longrightarrow> \<not> isArchived x) \<Longrightarrow> findFirst ch p t = findFirst ch p s"
  by (simp add: findFirst_liveRows sameLive_def)

lemma sameLive_refl [simp]: "sameLive s s"
  by (simp add: sameLive_def)

lemma sameLive_others:
  "sameLive s t \<Longrightarrow> sameLive (emit h e p s) (emit h e p t)"
  "sameLive s t \<Longrightarrow> sameLive (createSession x s) (createSession x t)"
  "sameLive s t \<Longrightarrow> sameLive (sendConfirmDelayedTimeoutMessage rid s) (sendConfirmDelayedTimeoutMessage rid t)"
  "sameLive s t \<Longrightarrow> sameLive (create d s) (create d t)"
  by (simp_all add: sameLive_def liveRows_def)

lemma sameLive_delete: "sameLive s t \<Longrightarrow> sameLive (delete rid s) (delete rid t)"
proof -
  have "filter (\<lambda>r. \<not> isArchived r) (filter (\<lambda>r. recordId r \<noteq> rid) xs)
        = filter (\<lambda>r. recordId r \<noteq> rid) (filter (\<lambda>r. \<not> isArchived r) xs)" for xs
    by (induction xs) simp_all
  then have "liveRows (delete rid u) = filter (\<lambda>r. recordId r \<noteq> rid) (liveRows u)" for u
    unfolding liveRows_def delete_fields .
  then show "sameLive s t \<Longrightarrow> sameLive (delete rid s) (delete rid t)"
    by (simp add: sameLive_def)
qed

lemma sameLive_update_keep:
  assumes "\<And>r. isArchived (f r) = isArchived r" and "sameLive s t"
  shows "sameLive (update rid f s) (update rid f t)"
proof -
  have "liveRows (update rid f u) = map (\<lambda>r. if recordId r = rid then f r else r) (liveRows u)" for u
    unfolding liveRows_def update_fields
    by (rule filter_map_same) (simp add: assms(1))
  with assms(2) show ?thesis
    by (simp add: sameLive_def)
qed

lemma sameLive_archive: "sameLive s t \<Longrightarrow> sameLive (update rid archive s) (update rid archive t)"
proof -
  have "filter (\<lambda>r. \<not> isArchived r) (map (\<lambda>r. if recordId r = rid then archive r else r) xs)
        = filter (\<lambda>r. recordId r \<noteq> rid) (filter (\<lambda>r. \<not> isArchived r) xs)" for xs
    by (induction xs) simp_all
  then have "liveRows (update rid archive u) = filter (\<lambda>r. recordId r \<noteq> rid) (liveRows u)" for u
    unfolding liveRows_def update_fields .
  then show "sameLive s t \<Longrightarrow> sameLive (update rid archive s) (update rid archive t)"
    by (simp add: sameLive_def)
qed

lemma sameLive_archive_all:
  "sameLive s t \<Longrightarrow> sameLive (updateMany p archive s) (updateMany p archive t)"
proof -
  have "filter (\<lambda>r. \<not> isArchived r) (map (\<lambda>r. if p r then archive r else r) xs)
        = filter (\<lambda>r. \<not> p r) (filter (\<lambda>r. \<not> isArchived r) xs)" for xs
    by (induction xs) simp_all
  then have "liveRows (updateMany p archive u) = filter (\<lambda>r. \<not> p r) (liveRows u)" for u
    unfolding liveRows_def updateMany_fields .
  then show "sameLive s t \<Longrightarrow> sameLive (updateMany p archive s) (updateMany p archive t)"
    by (simp add: sameLive_def)
qed

lemma sameLive_confirm:
  "sameLive s t \<Longrightarrow>
   sameLive (update rid (\<lambda>r. r\<lparr>isConfirmed := True\<rparr>) s) (update rid (\<lambda>r. r\<lparr>isConfirmed := True\<rparr>) t)"
  by (rule sameLive_update_keep) simp_all

lemma sameLive_socket:
  "sameLive s t \<Longrightarrow>
   sameLive (update rid (\<lambda>r. r\<lparr>socketId := sock\<rparr>) s) (update rid (\<lambda>r. r\<lparr>socketId := sock\<rparr>) t)"
  by (rule sameLive_update_keep) simp_all

lemma sameLive_pair:
  "sameLive s t \<Longrightarrow>
   sameLive (update rid (\<lambda>r. r\<lparr>matched := True, matchedUserId := Some uid, isPending := True\<rparr>) s)
            (update rid (\<lambda>r. r\<lparr>matched := True, matchedUserId := Some uid, isPending := True\<rparr>) t)"
  by (rule sameLive_update_keep) simp_all

lemmas sameLive_steps =
  sameLive_others sameLive_delete sameLive_archive sameLive_confirm sameLive_socket sameLive_pair

lemma sameLive_inOrder:
  "(\<And>f u v. f \<in> set fs \<Longrightarrow> sameLive u v \<Longrightarrow> sameLive (f u) (f v))
   \<Longrightarrow> sameLive s t \<Longrightarrow> sameLive (inOrder fs s) (inOrder fs t)"
  by (induction fs arbitrary: s t) simp_all

lemma sameLive_existingMatch:
  assumes "sameLive s t"
  shows "existingMatch ch uid tpc diff t = existingMatch ch uid tpc diff s"
proof -
  from assms have ex: "excludedUserIds uid t = excludedUserIds uid s"
    by (simp add: excludedUserIds_def previousUserIds_def sameLive_def)
  have f1: "findFirst ch (\<lambda>r. topic r = tpc \<and> difficulty r = diff \<and> \<not> matched r \<and> \<not> isArchived r
                          \<and> userId r \<notin> set (excludedUserIds uid s)) t
          = findFirst ch (\<lambda>r. topic r = tpc \<and> difficulty r = diff \<and> \<not> matched r \<and> \<not> isArchived r
                          \<and> userId r \<notin> set (excludedUserIds uid s)) s"
    by (rule sameLive_findFirst [OF assms]) simp
  have f2: "findFirst ch (\<lambda>r. topic r = tpc \<and> \<not> matched r \<and> \<not> isArchived r
                          \<and> userId r \<notin> set (excludedUserIds uid s)) t
          = findFirst ch (\<lambda>r. topic r = tpc \<and> \<not> matched r \<and> \<not> isArchived r
                          \<and> userId r \<notin> set (excludedUserIds uid s)) s"
    by (rule sameLive_findFirst [OF assms]) simp
  have f3: "findFirst ch (\<lambda>r. topic r = tpc \<and> difficulty r = diff \<and> \<not> matched r \<and> \<not> isArchived r
                          \<and> userId r \<noteq> uid) t
          = findFirst ch (\<lambda>r. topic r = tpc \<and> difficulty r = diff \<and> \<not> matched r \<and> \<not> isArchived r
                          \<and> userId r \<noteq> uid) s"
    by (rule sameLive_findFirst [OF assms]) simp
  have f4: "findFirst ch (\<lambda>r. topic r = tpc \<and> \<not> matched r \<and> \<not> isArchived r \<and> userId r \<noteq> uid) t
          = findFirst ch (\<lambda>r. topic r = tpc \<and> \<not> matched r \<and> \<not> isArchived r \<and> userId r \<noteq> uid) s"
    by (rule sameLive_findFirst [OF assms]) simp
  show ?thesis
    unfolding existingMatch_def ex f1 f2 f3 f4 ..
qed

lemma sameLive_handleUserRequest:
  assumes "sameLive s t"
  shows "sameLive (handleUserRequest ch room question uid tpc diff sock s)
                  (handleUserRequest ch room question uid tpc diff sock t)"
proof -
  have g: "findFirst ch (\<lambda>r. userId r = uid \<and> \<not> isPending r \<and> \<not> isArchived r) t
         = findFirst ch (\<lambda>r. userId r = uid \<and> \<not> isPending r \<and> \<not> isArchived r) s"
    by (rule sameLive_findFirst [OF assms]) simp
  note e = sameLive_existingMatch [OF assms, of ch uid tpc diff]
  from assms have n: "nextRecordId t = nextRecordId s"
    by (simp add: sameLive_def)
  show ?thesis
    unfolding handleUserRequest_def g e n
    by (cases "findFirst ch (\<lambda>r. userId r = uid \<and> \<not> isPending r \<and> \<not> isArchived r) s";
        cases "existingMatch ch uid tpc diff s"; cases question)
      (simp_all add: sameLive_steps assms)
qed

lemma sameLive_pair_handlers:
  assumes "sameLive s t"
  shows "sameLive (handleMatchingConfirm ch uid s) (handleMatchingConfirm ch uid t)"
    and "sameLive (handleMatchingDecline ch uid s) (handleMatchingDecline ch uid t)"
proof -
  have m: "findMatchedRecord ch uid t = findMatchedRecord ch uid s"
    unfolding findMatchedRecord_def by (rule sameLive_findFirst [OF assms]) simp
  have u: "findUserRecord ch uid t = findUserRecord ch uid s"
    unfolding findUserRecord_def by (rule sameLive_findFirst [OF assms]) simp
  show "sameLive (handleMatchingConfirm ch uid s) (handleMatchingConfirm ch uid t)"
    unfolding handleMatchingConfirm_def m u
    by (cases "findMatchedRecord ch uid s"; cases "findUserRecord ch uid s")
      (simp_all add: sameLive_steps assms)
  show "sameLive (handleMatchingDecline ch uid s) (handleMatchingDecline ch uid t)"
    unfolding handleMatchingDecline_def m u
    by (cases "findMatchedRecord ch uid s"; cases "findUserRecord ch uid s")
      (simp_all add: sameLive_steps assms)
qed

lemma sameLive_handleTimeout:
  assumes "sameLive s t"
  shows "sameLive (handleTimeout ch uid sock s) (handleTimeout ch uid sock t)"
proof -
  have f: "findFirst ch (\<lambda>r. userId r = uid \<and> \<not> isPending r \<and> \<not> isArchived r \<and> socketId r = sock) t
         = findFirst ch (\<lambda>r. userId r = uid \<and> \<not> isPending r \<and> \<not> isArchived r \<and> socketId r = sock) s"
    by (rule sameLive_findFirst [OF assms]) simp
  show ?thesis
    unfolding handleTimeout_def f
    by (simp add: sameLive_steps assms split: option.splits)
qed

lemma handleConfirmTimeout_liveRows:
  assumes d: "distinct (map recordId (matchRecordTable s))"
  shows "handleConfirmTimeout rid s =
     (case find (\<lambda>r. recordId r = rid) (liveRows s) of
        Some result \<Rightarrow>
          inOrder [emit (socketId result) ''matching_fail'' (Text msgNotConfirmed),
                   update rid archive] s
      | None \<Rightarrow> s)"
proof (cases "find (\<lambda>r. recordId r = rid) (liveRows s)")
  case None
  then have no: "\<not> (\<exists>x. x \<in> set (liveRows s) \<and> recordId x = rid)"
    unfolding find_None_iff .
  have "handleConfirmTimeout rid s = s"
  proof (cases "findUnique rid s")
    case None
    then show ?thesis by (simp add: handleConfirmTimeout_def)
  next
    case (Some result)
    then have "recordId result = rid \<and> result \<in> set (matchRecordTable s)"
      unfolding findUnique_def by (rule find_Some_D)
    with no have "isArchived result" by (auto simp: liveRows_def)
    with Some show ?thesis by (simp add: handleConfirmTimeout_def)
  qed
  with None show ?thesis by simp
next
  case (Some result)
  then have "recordId result = rid \<and> result \<in> set (liveRows s)"
    by (rule find_Some_D)
  then have res: "recordId result = rid" "result \<in> set (matchRecordTable s)" "\<not> isArchived result"
    by (simp_all add: liveRows_def)
  from res(1,2) have "findUnique rid s \<noteq> None"
    by (auto simp: findUnique_def find_None_iff)
  then obtain y where y: "findUnique rid s = Some y" by blast
  then have "recordId y = rid \<and> y \<in> set (matchRecordTable s)"
    unfolding findUnique_def by (rule find_Some_D)
  with same_key_same_row [OF d _ res(2)] res(1) have "y = result" by simp
  with y res(3) Some show ?thesis
    by (simp add: handleConfirmTimeout_def)
qed

lemma sameLive_handleConfirmTimeout:
  assumes "sameLive s t"
    and "distinct (map recordId (matchRecordTable s))" and "distinct (map recordId (matchRecordTable t))"
  shows "sameLive (handleConfirmTimeout rid s) (handleConfirmTimeout rid t)"
proof -
  from assms(1) have l: "liveRows t = liveRows s" by (simp add: sameLive_def)
  show ?thesis
    unfolding handleConfirmTimeout_liveRows [OF assms(2)] handleConfirmTimeout_liveRows [OF assms(3)] l
    by (simp add: sameLive_steps assms(1) split: option.splits)
qed

lemma sameLive_handle:
  assumes "sameLive s t" and "keysOk s" and "keysOk t"
  shows "sameLive (handle ch req s) (handle ch req t)"
proof (cases req)
  case (UserRequest room question uid tpc diff sock)
  with sameLive_handleUserRequest [OF assms(1)] show ?thesis by simp
next
  case (MatchingConfirm uid)
  with sameLive_pair_handlers(1) [OF assms(1)] show ?thesis by simp
next
  case (MatchingDecline uid)
  with sameLive_pair_handlers(2) [OF assms(1)] show ?thesis by simp
next
  case (Timeout uid sock)
  with sameLive_handleTimeout [OF assms(1)] show ?thesis by simp
next
  case (ConfirmTimeout rid)
  from assms(2,3) have "distinct (map recordId (matchRecordTable s))"
    "distinct (map recordId (matchRecordTable t))"
    by (simp_all add: keysOk_def)
  with ConfirmTimeout sameLive_handleConfirmTimeout [OF assms(1)] show ?thesis by simp
next
  case (Disconnected sock)
  with sameLive_archive_all [OF assms(1)] show ?thesis
    by (simp add: handleDisconnected_def)
qed

lemma sameLive_run:
  "sameLive s t \<Longrightarrow> keysOk s \<Longrightarrow> keysOk t \<Longrightarrow> sameLive (run steps s) (run steps t)"
  unfolding run_def
  by (induction steps arbitrary: s t) (simp_all add: sameLive_handle keysOk_handle)

lemma forget_archived:
  assumes "keysOk s" and "isArchived r"
  shows "keysOk (forget r s)" and "sameLive (forget r s) s"
proof -
  from assms(1) show "keysOk (forget r s)"
    by (auto simp: keysOk_def forget_def distinct_map_filter removeAll_filter_not_eq)
  have "filter (\<lambda>x. \<not> isArchived x) (removeAll r xs) = filter (\<lambda>x. \<not> isArchived x) xs" for xs
    using assms(2) by (induction xs) auto
  then show "sameLive (forget r s) s"
    by (simp add: sameLive_def liveRows_def forget_def)
qed

text \<open>
  \<^bold>\<open>C10\<close> Archival is terminal. Let the keys of the table be distinct and below the
  counter, and let \<open>r\<close> be an archived row of the table. Then after any sequence of
  requests to the six handlers (request intake, confirm, decline, request timeout, confirm
  timeout, disconnect; a single request is the sequence of length one) the row \<open>r\<close> is
  still in the table, equal in every field and so still archived, and the keys are still
  distinct, so it is the only row of its key. No lookup of a handler returns \<open>r\<close>: neither
  the candidate selection nor the two lookups of confirm and decline. And the handlers do
  the same with \<open>r\<close> in the table and without it: the events sent, the rows that are not
  archived and the sessions are those of the run from the table without \<open>r\<close>, so no event
  is sent on behalf of \<open>r\<close>.
\<close>

theorem archived_terminal:
  assumes "keysOk s" and "r \<in> set (matchRecordTable s)" and "isArchived r"
  shows "r \<in> set (matchRecordTable (run steps s))
       \<and> keysOk (run steps s)
       \<and> existingMatch ch uid tpc diff (run steps s) \<noteq> Some r
       \<and> findUserRecord ch uid (run steps s) \<noteq> Some r
       \<and> findMatchedRecord ch uid (run steps s) \<noteq> Some r
       \<and> emitted (run steps (forget r s)) = emitted (run steps s)
       \<and> liveRows (run steps (forget r s)) = liveRows (run steps s)
       \<and> sessionHistoryTable (run steps (forget r s)) = sessionHistoryTable (run steps s)"
proof -
  have stays: "r \<in> set (matchRecordTable (run steps s))"
    using assms by (rule stays_run)
  have keys: "keysOk (run steps s)"
    using assms(1) by (rule keysOk_run)
  have cand: "existingMatch ch uid tpc diff (run steps s) \<noteq> Some r"
    using existingMatch_Some_D [of ch uid tpc diff "run steps s" r] assms(3) by blast
  have user: "findUserRecord ch uid (run steps s) \<noteq> Some r"
    using findFirst_Some_D [of ch "\<lambda>r. userId r = uid \<and> isPending r \<and> \<not> isArchived r"
        "run steps s" r] assms(3)
    unfolding findUserRecord_def by blast
  have other: "findMatchedRecord ch uid (run steps s) \<noteq> Some r"
    using findFirst_Some_D [of ch "\<lambda>r. matchedUserId r = Some uid \<and> isPending r \<and> \<not> isArchived r"
        "run steps s" r] assms(3)
    unfolding findMatchedRecord_def by blast
  from forget_archived [OF assms(1,3)] assms(1)
  have "sameLive (run steps (forget r s)) (run steps s)"
    by (intro sameLive_run) simp_all
  then have "emitted (run steps (forget r s)) = emitted (run steps s)"
    and "liveRows (run steps (forget r s)) = liveRows (run steps s)"
    and "sessionHistoryTable (run steps (forget r s)) = sessionHistoryTable (run steps s)"
    by (simp_all add: sameLive_def)
  with stays keys cand user other show ?thesis by blast
qed

lemma rematchExample_keysOk: "keysOk rematchExample"
  unfolding rematchExample_def pairedExample_def
  by (intro keysOk_run keysOk_initialState)

theorem archived_terminal_witness:
  "keysOk rematchExample
   \<and> alicePending\<lparr>isConfirmed := True, isArchived := True\<rparr> \<in> set (matchRecordTable rematchExample)
   \<and> isArchived (alicePending\<lparr>isConfirmed := True, isArchived := True\<rparr>)
   \<and> alicePending\<lparr>isConfirmed := True, isArchived := True\<rparr>
       \<in> set (matchRecordTable
            (run (inPlace [UserRequest ''room-4'' (Some 9) ''bob'' ''arrays'' ''easy'' ''sock-b'',
                  MatchingConfirm ''alice'', ConfirmTimeout 1, Disconnected ''sock-a'']) rematchExample))
   \<and> existingMatch firstRow ''bob'' ''arrays'' ''easy''
         (run (inPlace [UserRequest ''room-4'' (Some 9) ''bob'' ''arrays'' ''easy'' ''sock-b'',
               MatchingConfirm ''alice'', ConfirmTimeout 1, Disconnected ''sock-a'']) rematchExample)
       \<noteq> Some (alicePending\<lparr>isConfirmed := True, isArchived := True\<rparr>)
   \<and> emitted
         (run (inPlace [UserRequest ''room-4'' (Some 9) ''bob'' ''arrays'' ''easy'' ''sock-b'',
               MatchingConfirm ''alice'', ConfirmTimeout 1, Disconnected ''sock-a''])
            (forget (alicePending\<lparr>isConfirmed := True, isArchived := True\<rparr>) rematchExample))
       = emitted
         (run (inPlace [UserRequest ''room-4'' (Some 9) ''bob'' ''arrays'' ''easy'' ''sock-b'',
               MatchingConfirm ''alice'', ConfirmTimeout 1, Disconnected ''sock-a'']) rematchExample)"
proof -
  have m: "alicePending\<lparr>isConfirmed := True, isArchived := True\<rparr> \<in> set (matchRecordTable rematchExample)"
    by (simp add: rematchExample_tables)
  have a: "isArchived (alicePending\<lparr>isConfirmed := True, isArchived := True\<rparr>)"
    by simp
  from archived_terminal [OF rematchExample_keysOk m a,
      of "inPlace [UserRequest ''room-4'' (Some 9) ''bob'' ''arrays'' ''easy'' ''sock-b'',
           MatchingConfirm ''alice'', ConfirmTimeout 1, Disconnected ''sock-a'']"
         firstRow "''bob''" "''arrays''" "''easy''"]
    rematchExample_keysOk m a
  show ?thesis by blast
qed

end
